theory Spec2Isabelle
  imports Complex_Main "HOL-Library.Signed_Division" "HOL-Library.List_Lexorder"
begin

section \<open>Data model of the data-distribution relocation queue\<close>

text \<open>
  The development embeds the relocation queue of \<^verbatim>\<open>DataDistributionQueue.actor.cpp\<close>.
  C++ \<^verbatim>\<open>int\<close> and \<^verbatim>\<open>int64_t\<close> values are modelled as unbounded integers: signed
  overflow is undefined in C++, and the work factors handled here are at most
  \<^verbatim>\<open>WORK_FULL_UTILIZATION\<close> in magnitude. Integer division is the truncating
  division \<open>sdiv\<close>; a zero divisor is an error of the model. \<^verbatim>\<open>ASSERT\<close> throws
  \<^verbatim>\<open>internal_error\<close> in flow, so a failed assertion is an error result.
  A \<^verbatim>\<open>double\<close> time stamp is modelled by a real number (only its order is used).
\<close>

datatype error = internal_error | division_by_zero | out_of_bounds

text \<open>A \<^verbatim>\<open>UID\<close> is an opaque 128-bit identifier; only equality, order and validity
  (being different from the all-zero identifier) are used.\<close>

type_synonym UID = nat

definition uid_isValid :: "UID \<Rightarrow> bool" where
  "uid_isValid u = (u \<noteq> 0)"

definition anonymousShardId :: UID where
  "anonymousShardId = 0x6666660000000088888888"

type_synonym Key = "nat list"

record KeyRange =
  range_begin :: Key
  range_end :: Key

definition keyRange_contains :: "KeyRange \<Rightarrow> KeyRange \<Rightarrow> bool" where
  "keyRange_contains r ks = (range_begin r \<le> range_begin ks \<and> range_end ks \<le> range_end r)"

definition keyRange_intersects :: "KeyRange \<Rightarrow> KeyRange \<Rightarrow> bool" where
  "keyRange_intersects r ks = (range_begin r < range_end ks \<and> range_begin ks < range_end r)"

definition WORK_FULL_UTILIZATION :: int where
  "WORK_FULL_UTILIZATION = 10000"

text \<open>The integers of the queue are of the C++ type \<^verbatim>\<open>int\<close>. They are modelled by the
  mathematical integers, which agree with them as long as no operation overflows;
  \<open>fitsInt\<close> holds of the values of the type.\<close>

definition fitsInt :: "int \<Rightarrow> bool" where
  "fitsInt x = (- (2 ^ 31) \<le> x \<and> x < 2 ^ 31)"

text \<open>The knobs are declared outside the sources at hand; they are a parameter. The
  record gathers the entries of \<^verbatim>\<open>SERVER_KNOBS\<close> that the queue reads and the one entry
  of \<^verbatim>\<open>CLIENT_KNOBS\<close>, \<^verbatim>\<open>SHARD_ENCODE_LOCATION_METADATA\<close>.\<close>

record ServerKnobs =
  PRIORITY_RECOVER_MOVE :: int
  PRIORITY_REBALANCE_UNDERUTILIZED_TEAM :: int
  PRIORITY_REBALANCE_OVERUTILIZED_TEAM :: int
  PRIORITY_REBALANCE_READ_OVERUTIL_TEAM :: int
  PRIORITY_REBALANCE_READ_UNDERUTIL_TEAM :: int
  PRIORITY_PERPETUAL_STORAGE_WIGGLE :: int
  PRIORITY_TEAM_HEALTHY :: int
  PRIORITY_TEAM_CONTAINS_UNDESIRED_SERVER :: int
  PRIORITY_TEAM_REDUNDANT :: int
  PRIORITY_MERGE_SHARD :: int
  PRIORITY_POPULATE_REGION :: int
  PRIORITY_TEAM_UNHEALTHY :: int
  PRIORITY_TEAM_2_LEFT :: int
  PRIORITY_TEAM_1_LEFT :: int
  PRIORITY_TEAM_FAILED :: int
  PRIORITY_TEAM_0_LEFT :: int
  PRIORITY_SPLIT_SHARD :: int
  RELOCATION_PARALLELISM_PER_SOURCE_SERVER :: int
  RELOCATION_PARALLELISM_PER_DEST_SERVER :: int
  USE_OLD_NEEDED_SERVERS :: bool
  REBALANCE_MAX_RETRIES :: int
  MIN_SHARD_BYTES :: int
  SHARD_ENCODE_LOCATION_METADATA :: bool

definition exampleKnobs :: ServerKnobs where
  "exampleKnobs = \<lparr>
     PRIORITY_RECOVER_MOVE = 110,
     PRIORITY_REBALANCE_UNDERUTILIZED_TEAM = 120,
     PRIORITY_REBALANCE_OVERUTILIZED_TEAM = 122,
     PRIORITY_REBALANCE_READ_OVERUTIL_TEAM = 123,
     PRIORITY_REBALANCE_READ_UNDERUTIL_TEAM = 121,
     PRIORITY_PERPETUAL_STORAGE_WIGGLE = 139,
     PRIORITY_TEAM_HEALTHY = 140,
     PRIORITY_TEAM_CONTAINS_UNDESIRED_SERVER = 150,
     PRIORITY_TEAM_REDUNDANT = 200,
     PRIORITY_MERGE_SHARD = 340,
     PRIORITY_POPULATE_REGION = 600,
     PRIORITY_TEAM_UNHEALTHY = 700,
     PRIORITY_TEAM_2_LEFT = 709,
     PRIORITY_TEAM_1_LEFT = 800,
     PRIORITY_TEAM_FAILED = 805,
     PRIORITY_TEAM_0_LEFT = 809,
     PRIORITY_SPLIT_SHARD = 950,
     RELOCATION_PARALLELISM_PER_SOURCE_SERVER = 2,
     RELOCATION_PARALLELISM_PER_DEST_SERVER = 10,
     USE_OLD_NEEDED_SERVERS = False,
     REBALANCE_MAX_RETRIES = 100,
     MIN_SHARD_BYTES = 200000,
     SHARD_ENCODE_LOCATION_METADATA = False \<rparr>"

datatype RelocateReason = RelocateReason_INVALID | OTHER | REBALANCE_DISK | REBALANCE_READ

datatype DataMovementReason =
    INVALID
  | RECOVER_MOVE
  | REBALANCE_UNDERUTILIZED_TEAM
  | REBALANCE_OVERUTILIZED_TEAM
  | REBALANCE_READ_OVERUTIL_TEAM
  | REBALANCE_READ_UNDERUTIL_TEAM
  | PERPETUAL_STORAGE_WIGGLE
  | TEAM_HEALTHY
  | TEAM_CONTAINS_UNDESIRED_SERVER
  | TEAM_REDUNDANT
  | MERGE_SHARD
  | POPULATE_REGION
  | TEAM_UNHEALTHY
  | TEAM_2_LEFT
  | TEAM_1_LEFT
  | TEAM_FAILED
  | TEAM_0_LEFT
  | SPLIT_SHARD

definition isDataMovementForMountainChopper :: "DataMovementReason \<Rightarrow> bool" where
  "isDataMovementForMountainChopper reason =
     (reason = REBALANCE_OVERUTILIZED_TEAM \<or> reason = REBALANCE_READ_OVERUTIL_TEAM)"

definition isDataMovementForValleyFiller :: "DataMovementReason \<Rightarrow> bool" where
  "isDataMovementForValleyFiller reason =
     (reason = REBALANCE_UNDERUTILIZED_TEAM \<or> reason = REBALANCE_READ_UNDERUTIL_TEAM)"

fun dataMovementPriority :: "ServerKnobs \<Rightarrow> DataMovementReason \<Rightarrow> int" where
  "dataMovementPriority knobs INVALID = - 1"
| "dataMovementPriority knobs RECOVER_MOVE = PRIORITY_RECOVER_MOVE knobs"
| "dataMovementPriority knobs REBALANCE_UNDERUTILIZED_TEAM = PRIORITY_REBALANCE_UNDERUTILIZED_TEAM knobs"
| "dataMovementPriority knobs REBALANCE_OVERUTILIZED_TEAM = PRIORITY_REBALANCE_OVERUTILIZED_TEAM knobs"
| "dataMovementPriority knobs REBALANCE_READ_OVERUTIL_TEAM = PRIORITY_REBALANCE_READ_OVERUTIL_TEAM knobs"
| "dataMovementPriority knobs REBALANCE_READ_UNDERUTIL_TEAM = PRIORITY_REBALANCE_READ_UNDERUTIL_TEAM knobs"
| "dataMovementPriority knobs PERPETUAL_STORAGE_WIGGLE = PRIORITY_PERPETUAL_STORAGE_WIGGLE knobs"
| "dataMovementPriority knobs TEAM_HEALTHY = PRIORITY_TEAM_HEALTHY knobs"
| "dataMovementPriority knobs TEAM_CONTAINS_UNDESIRED_SERVER = PRIORITY_TEAM_CONTAINS_UNDESIRED_SERVER knobs"
| "dataMovementPriority knobs TEAM_REDUNDANT = PRIORITY_TEAM_REDUNDANT knobs"
| "dataMovementPriority knobs MERGE_SHARD = PRIORITY_MERGE_SHARD knobs"
| "dataMovementPriority knobs POPULATE_REGION = PRIORITY_POPULATE_REGION knobs"
| "dataMovementPriority knobs TEAM_UNHEALTHY = PRIORITY_TEAM_UNHEALTHY knobs"
| "dataMovementPriority knobs TEAM_2_LEFT = PRIORITY_TEAM_2_LEFT knobs"
| "dataMovementPriority knobs TEAM_1_LEFT = PRIORITY_TEAM_1_LEFT knobs"
| "dataMovementPriority knobs TEAM_FAILED = PRIORITY_TEAM_FAILED knobs"
| "dataMovementPriority knobs TEAM_0_LEFT = PRIORITY_TEAM_0_LEFT knobs"
| "dataMovementPriority knobs SPLIT_SHARD = PRIORITY_SPLIT_SHARD knobs"

text \<open>The part of a persisted \<^verbatim>\<open>DataMove\<close> that the queue reads: \<^verbatim>\<open>meta.id\<close> and
  \<^verbatim>\<open>meta.src\<close>.\<close>

record DataMove =
  meta_id :: UID
  meta_src :: "UID list"

record RelocateData =
  keys :: KeyRange
  priority :: int
  boundaryPriority :: int
  healthPriority :: int
  reason :: RelocateReason
  startTime :: real
  randomId :: UID
  dataMoveId :: UID
  workFactor :: int
  src :: "UID list"
  completeSources :: "UID list"
  completeDests :: "UID list"
  wantsNewServers :: bool
  cancellable :: bool
  interval :: string
  dataMove :: "DataMove option"

definition isHealthPriority :: "ServerKnobs \<Rightarrow> int \<Rightarrow> bool" where
  "isHealthPriority knobs p =
     (p = PRIORITY_POPULATE_REGION knobs \<or> p = PRIORITY_TEAM_UNHEALTHY knobs \<or>
      p = PRIORITY_TEAM_2_LEFT knobs \<or> p = PRIORITY_TEAM_1_LEFT knobs \<or>
      p = PRIORITY_TEAM_0_LEFT knobs \<or> p = PRIORITY_TEAM_REDUNDANT knobs \<or>
      p = PRIORITY_TEAM_HEALTHY knobs \<or> p = PRIORITY_TEAM_CONTAINS_UNDESIRED_SERVER knobs \<or>
      p = PRIORITY_PERPETUAL_STORAGE_WIGGLE knobs)"

definition isBoundaryPriority :: "ServerKnobs \<Rightarrow> int \<Rightarrow> bool" where
  "isBoundaryPriority knobs p = (p = PRIORITY_SPLIT_SHARD knobs \<or> p = PRIORITY_MERGE_SHARD knobs)"

definition isRestore :: "RelocateData \<Rightarrow> bool" where
  "isRestore rd = (dataMove rd \<noteq> None)"

text \<open>\<^verbatim>\<open>RelocateData::operator>\<close>, the order of every \<^verbatim>\<open>std::set\<close> of relocations.\<close>

definition rd_greater :: "RelocateData \<Rightarrow> RelocateData \<Rightarrow> bool" where
  "rd_greater a rhs =
     (if priority a \<noteq> priority rhs then priority a > priority rhs
      else if startTime a \<noteq> startTime rhs then startTime a < startTime rhs
      else randomId a > randomId rhs)"

text \<open>\<^verbatim>\<open>RelocateData::operator==\<close>.\<close>

definition rd_eq :: "RelocateData \<Rightarrow> RelocateData \<Rightarrow> bool" where
  "rd_eq a rhs =
     (priority a = priority rhs \<and> boundaryPriority a = boundaryPriority rhs \<and>
      healthPriority a = healthPriority rhs \<and> reason a = reason rhs \<and> keys a = keys rhs \<and>
      startTime a = startTime rhs \<and> workFactor a = workFactor rhs \<and> src a = src rhs \<and>
      completeSources a = completeSources rhs \<and> wantsNewServers a = wantsNewServers rhs \<and>
      randomId a = randomId rhs)"

section \<open>The busyness ledger\<close>

record Busyness =
  ledger :: "int list"

definition newBusyness :: Busyness where
  "newBusyness = \<lparr> ledger = replicate 10 0 \<rparr>"

definition canLaunch :: "Busyness \<Rightarrow> int \<Rightarrow> int \<Rightarrow> error + bool" where
  "canLaunch b prio work =
     (if \<not> (prio > 0 \<and> prio < 1000) then Inl internal_error
      else if \<not> (0 \<le> prio sdiv 100 \<and> nat (prio sdiv 100) < length (ledger b)) then Inl out_of_bounds
      else Inr (ledger b ! nat (prio sdiv 100) \<le> WORK_FULL_UTILIZATION - work))"

text \<open>The buckets visited by the loop of \<^verbatim>\<open>addWork\<close>:
  \<^verbatim>\<open>for (int i = 0; i <= (prio / 100); i++)\<close>.\<close>

definition addWork_indices :: "int \<Rightarrow> int list" where
  "addWork_indices prio = [0..prio sdiv 100]"

fun addWork_loop :: "int list \<Rightarrow> int \<Rightarrow> int list \<Rightarrow> error + int list" where
  "addWork_loop [] work l = Inr l"
| "addWork_loop (i # is) work l =
     (if 0 \<le> i \<and> nat i < length l
      then addWork_loop is work (l[nat i := l ! nat i + work])
      else Inl out_of_bounds)"

definition addWork :: "Busyness \<Rightarrow> int \<Rightarrow> int \<Rightarrow> error + Busyness" where
  "addWork b prio work =
     (if \<not> (prio > 0 \<and> prio < 1000) then Inl internal_error
      else case addWork_loop (addWork_indices prio) work (ledger b) of
             Inl e \<Rightarrow> Inl e
           | Inr l \<Rightarrow> Inr (b\<lparr> ledger := l \<rparr>))"

definition removeWork :: "Busyness \<Rightarrow> int \<Rightarrow> int \<Rightarrow> error + Busyness" where
  "removeWork b prio work = addWork b prio (- work)"

text \<open>Truncating division of two C++ integers.\<close>

definition cdiv :: "int \<Rightarrow> int \<Rightarrow> error + int" where
  "cdiv a b = (if b = 0 then Inl division_by_zero else Inr (a sdiv b))"

definition getSrcWorkFactor :: "ServerKnobs \<Rightarrow> RelocateData \<Rightarrow> int \<Rightarrow> error + int" where
  "getSrcWorkFactor knobs relocation singleRegionTeamSize =
     (if healthPriority relocation = PRIORITY_TEAM_1_LEFT knobs \<or>
         healthPriority relocation = PRIORITY_TEAM_0_LEFT knobs
      then cdiv WORK_FULL_UTILIZATION (RELOCATION_PARALLELISM_PER_SOURCE_SERVER knobs)
      else if healthPriority relocation = PRIORITY_TEAM_2_LEFT knobs
      then cdiv (WORK_FULL_UTILIZATION sdiv 2) (RELOCATION_PARALLELISM_PER_SOURCE_SERVER knobs)
      else (case cdiv WORK_FULL_UTILIZATION singleRegionTeamSize of
              Inl e \<Rightarrow> Inl e
            | Inr q \<Rightarrow> cdiv q (RELOCATION_PARALLELISM_PER_SOURCE_SERVER knobs)))"

definition getDestWorkFactor :: "ServerKnobs \<Rightarrow> error + int" where
  "getDestWorkFactor knobs = cdiv WORK_FULL_UTILIZATION (RELOCATION_PARALLELISM_PER_DEST_SERVER knobs)"

text \<open>A \<^verbatim>\<open>std::map<UID, Busyness>\<close>; \<^verbatim>\<open>operator[]\<close> inserts a fresh ledger for an
  absent server.\<close>

type_synonym BusyMap = "UID \<rightharpoonup> Busyness"

definition busymap_at :: "BusyMap \<Rightarrow> UID \<Rightarrow> Busyness \<times> BusyMap" where
  "busymap_at m k = (case m k of Some b \<Rightarrow> (b, m) | None \<Rightarrow> (newBusyness, m(k \<mapsto> newBusyness)))"

section \<open>Admission of a relocation on its source servers\<close>

text \<open>The inner loop of \<^verbatim>\<open>canLaunchSrc\<close>: the work that would be cancelled is removed
  from a copy of the server's busyness.\<close>

fun wouldBeCancelled :: "UID \<Rightarrow> RelocateData list \<Rightarrow> Busyness \<Rightarrow> error + Busyness" where
  "wouldBeCancelled srv [] busyCopy = Inr busyCopy"
| "wouldBeCancelled srv (c # cs) busyCopy =
     (if count_list (src c) srv \<noteq> 0
      then (case removeWork busyCopy (priority c) (workFactor c) of
              Inl e \<Rightarrow> Inl e
            | Inr b \<Rightarrow> wouldBeCancelled srv cs b)
      else wouldBeCancelled srv cs busyCopy)"

fun canLaunchSrc_loop ::
  "int \<Rightarrow> int \<Rightarrow> RelocateData list \<Rightarrow> UID list \<Rightarrow> int \<Rightarrow> BusyMap \<Rightarrow> error + bool \<times> BusyMap" where
  "canLaunchSrc_loop prio work cancellableRelocations [] neededServers busymap = Inr (False, busymap)"
| "canLaunchSrc_loop prio work cancellableRelocations (s # ss) neededServers busymap =
     (case busymap_at busymap s of
        (b, busymap') \<Rightarrow>
          (case wouldBeCancelled s cancellableRelocations b of
             Inl e \<Rightarrow> Inl e
           | Inr busyCopy \<Rightarrow>
               (case canLaunch busyCopy prio work of
                  Inl e \<Rightarrow> Inl e
                | Inr ok \<Rightarrow>
                    if ok
                    then (if neededServers - 1 = 0 then Inr (True, busymap')
                          else canLaunchSrc_loop prio work cancellableRelocations ss
                                 (neededServers - 1) busymap')
                    else canLaunchSrc_loop prio work cancellableRelocations ss
                           neededServers busymap')))"

definition neededServers_of :: "ServerKnobs \<Rightarrow> RelocateData \<Rightarrow> int \<Rightarrow> int \<Rightarrow> int" where
  "neededServers_of knobs relocation teamSize singleRegionTeamSize =
     (if USE_OLD_NEEDED_SERVERS knobs
      then max 1 (int (length (src relocation)) - teamSize + 1)
      else min (int (length (src relocation))) (teamSize - singleRegionTeamSize + 1))"

definition canLaunchSrc ::
  "ServerKnobs \<Rightarrow> RelocateData \<Rightarrow> int \<Rightarrow> int \<Rightarrow> BusyMap \<Rightarrow> RelocateData list
     \<Rightarrow> error + bool \<times> BusyMap" where
  "canLaunchSrc knobs relocation teamSize singleRegionTeamSize busymap cancellableRelocations =
     (if \<not> workFactor relocation = 0 then Inl internal_error
      else if \<not> length (src relocation) \<noteq> 0 then Inl internal_error
      else if \<not> teamSize \<ge> singleRegionTeamSize then Inl internal_error
      else (case getSrcWorkFactor knobs relocation singleRegionTeamSize of
              Inl e \<Rightarrow> Inl e
            | Inr work \<Rightarrow>
                canLaunchSrc_loop (priority relocation) work cancellableRelocations (src relocation)
                  (neededServers_of knobs relocation teamSize singleRegionTeamSize) busymap))"

text \<open>The admission condition in the words of the specification: the ledger of a
  server, reduced at every bucket by the work of each cancellable relocation that
  lists the server among its sources, leaves room for the work factor at the bucket
  of the priority.\<close>

definition busynessOf :: "BusyMap \<Rightarrow> UID \<Rightarrow> Busyness" where
  "busynessOf busymap srv = (case busymap srv of None \<Rightarrow> newBusyness | Some b \<Rightarrow> b)"

definition reducedLedger :: "BusyMap \<Rightarrow> RelocateData list \<Rightarrow> UID \<Rightarrow> nat \<Rightarrow> int" where
  "reducedLedger busymap cancellableRelocations srv bucket =
     ledger (busynessOf busymap srv) ! bucket
       - sum_list (map workFactor
           (filter (\<lambda>c. srv \<in> set (src c) \<and> int bucket \<le> priority c sdiv 100)
              cancellableRelocations))"

definition srcAdmits :: "BusyMap \<Rightarrow> RelocateData list \<Rightarrow> int \<Rightarrow> int \<Rightarrow> UID \<Rightarrow> bool" where
  "srcAdmits busymap cancellableRelocations prio work srv =
     (reducedLedger busymap cancellableRelocations srv (nat (prio sdiv 100)) + work \<le> 10000)"

text \<open>Every \<^verbatim>\<open>Busyness\<close> is built by its constructor, with a ledger of ten buckets.\<close>

definition wfBusyMap :: "BusyMap \<Rightarrow> bool" where
  "wfBusyMap m = (\<forall>s b. m s = Some b \<longrightarrow> length (ledger b) = 10)"

section \<open>Ordered sets of relocations\<close>

text \<open>A \<^verbatim>\<open>std::set<RelocateData, std::greater<RelocateData>>\<close> is the list of its
  elements in iteration order (greatest first). The set identifies two elements that
  the order does not separate; \<^verbatim>\<open>find\<close>, \<^verbatim>\<open>count\<close>, \<^verbatim>\<open>insert\<close> and \<^verbatim>\<open>erase\<close> work up
  to this equivalence, not up to \<^verbatim>\<open>operator==\<close>.\<close>

type_synonym RelocateSet = "RelocateData list"

definition rd_equiv :: "RelocateData \<Rightarrow> RelocateData \<Rightarrow> bool" where
  "rd_equiv a b = (\<not> rd_greater a b \<and> \<not> rd_greater b a)"

fun set_insert :: "RelocateData \<Rightarrow> RelocateSet \<Rightarrow> RelocateSet" where
  "set_insert x [] = [x]"
| "set_insert x (y # ys) =
     (if rd_greater x y then x # y # ys
      else if rd_greater y x then y # set_insert x ys
      else y # ys)"

definition set_count :: "RelocateSet \<Rightarrow> RelocateData \<Rightarrow> nat" where
  "set_count s x = (if list_ex (rd_equiv x) s then 1 else 0)"

definition set_erase :: "RelocateSet \<Rightarrow> RelocateData \<Rightarrow> RelocateSet" where
  "set_erase s x = filter (\<lambda>y. \<not> rd_equiv x y) s"

text \<open>The per-server queues, a \<^verbatim>\<open>std::map\<close> from server to set; \<^verbatim>\<open>operator[]\<close>
  inserts an empty set for an absent server.\<close>

type_synonym QueueMap = "UID \<rightharpoonup> RelocateSet"

definition queue_at :: "QueueMap \<Rightarrow> UID \<Rightarrow> RelocateSet \<times> QueueMap" where
  "queue_at q k = (case q k of Some s \<Rightarrow> (s, q) | None \<Rightarrow> ([], q(k \<mapsto> [])))"

definition queueOf :: "QueueMap \<Rightarrow> UID \<Rightarrow> RelocateSet" where
  "queueOf q k = (case q k of Some s \<Rightarrow> s | None \<Rightarrow> [])"

section \<open>Key-range maps\<close>

text \<open>
  Modelled from the spec: \<^verbatim>\<open>KeyRangeMap\<close> and \<^verbatim>\<open>KeyRangeActorMap\<close> are declared outside
  the sources at hand. Following section 4.1 of the specification, a map is the list of
  its entries in key order, the ranges of the entries do not overlap, and inserting a
  range with a value replaces exactly the coverage of that range: an entry that
  straddles a boundary of the range is cut there and keeps its value on the part left
  outside.
\<close>

type_synonym 'v KeyRangeMap = "(KeyRange \<times> 'v) list"

definition intersectingRanges :: "'v KeyRangeMap \<Rightarrow> KeyRange \<Rightarrow> (KeyRange \<times> 'v) list" where
  "intersectingRanges m ks = filter (\<lambda>e. keyRange_intersects (fst e) ks) m"

definition containedRanges :: "'v KeyRangeMap \<Rightarrow> KeyRange \<Rightarrow> (KeyRange \<times> 'v) list" where
  "containedRanges m ks = filter (\<lambda>e. keyRange_contains ks (fst e)) m"

definition rangeContaining :: "'v KeyRangeMap \<Rightarrow> Key \<Rightarrow> (KeyRange \<times> 'v) option" where
  "rangeContaining m k = find (\<lambda>e. range_begin (fst e) \<le> k \<and> k < range_end (fst e)) m"

definition partBefore :: "KeyRange \<Rightarrow> KeyRange \<times> 'v \<Rightarrow> (KeyRange \<times> 'v) list" where
  "partBefore ks e =
     (if range_begin (fst e) < range_begin ks
      then [(\<lparr> range_begin = range_begin (fst e),
                range_end = min (range_end (fst e)) (range_begin ks) \<rparr>, snd e)]
      else [])"

definition partAfter :: "KeyRange \<Rightarrow> KeyRange \<times> 'v \<Rightarrow> (KeyRange \<times> 'v) list" where
  "partAfter ks e =
     (if range_end ks < range_end (fst e)
      then [(\<lparr> range_begin = max (range_begin (fst e)) (range_end ks),
                range_end = range_end (fst e) \<rparr>, snd e)]
      else [])"

definition kr_insert :: "'v KeyRangeMap \<Rightarrow> KeyRange \<Rightarrow> 'v \<Rightarrow> 'v KeyRangeMap" where
  "kr_insert m ks v =
     (if range_end ks \<le> range_begin ks then m
      else concat (map (partBefore ks) m) @ [(ks, v)] @ concat (map (partAfter ks) m))"

text \<open>Modelled from the spec: the value of the entry that contains a key is updated
  in place (the source holds a reference to it).\<close>

fun modifyContaining :: "'v KeyRangeMap \<Rightarrow> Key \<Rightarrow> ('v \<Rightarrow> 'v) \<Rightarrow> 'v KeyRangeMap" where
  "modifyContaining [] k f = []"
| "modifyContaining (e # m) k f =
     (if range_begin (fst e) \<le> k \<and> k < range_end (fst e) then (fst e, f (snd e)) # m
      else e # modifyContaining m k f)"

text \<open>A \<^verbatim>\<open>Future<Void>\<close>: default-constructed, held by a running actor, or ready.\<close>

datatype 'a Future = Invalid | Pending 'a | Ready

definition future_isValid :: "'a Future \<Rightarrow> bool" where
  "future_isValid f = (f \<noteq> Invalid)"

definition isLive :: "'a Future \<Rightarrow> bool" where
  "isLive f = (case f of Pending a \<Rightarrow> True | _ \<Rightarrow> False)"

text \<open>Modelled from the spec: \<^verbatim>\<open>KeyRangeActorMap\<close>. A key outside every entry holds
  the default (invalid) future.\<close>

definition liveActorAt :: "'a Future KeyRangeMap \<Rightarrow> Key \<Rightarrow> bool" where
  "liveActorAt m k = (case rangeContaining m k of Some e \<Rightarrow> isLive (snd e) | None \<Rightarrow> False)"

definition getRangesAffectedByInsertion :: "'a Future KeyRangeMap \<Rightarrow> KeyRange \<Rightarrow> KeyRange list" where
  "getRangesAffectedByInsertion m ks =
     (case rangeContaining m (range_begin ks) of
        Some e \<Rightarrow>
          if range_begin (fst e) \<noteq> range_begin ks \<and> isLive (snd e)
          then [\<lparr> range_begin = range_begin (fst e), range_end = range_begin ks \<rparr>] else []
      | None \<Rightarrow> [])
     @ [ks] @
     (case rangeContaining m (range_end ks) of
        Some e \<Rightarrow>
          if range_begin (fst e) \<noteq> range_end ks \<and> isLive (snd e)
          then [\<lparr> range_begin = range_end ks, range_end = range_end (fst e) \<rparr>] else []
      | None \<Rightarrow> [])"

definition actors_cancel :: "'a Future KeyRangeMap \<Rightarrow> KeyRange \<Rightarrow> 'a Future KeyRangeMap" where
  "actors_cancel m ks = kr_insert m ks Invalid"

section \<open>The state of the queue\<close>

datatype Severity = SevVerbose | SevDebug | SevInfo | SevWarn | SevWarnAlways | SevError

record TraceEvent =
  severity :: Severity
  eventType :: string

text \<open>The actors the queue starts. An actor is recorded with its arguments; its body
  (which runs up to its first wait inside the call that creates it) belongs to the
  actor and is not part of the functions modelled here.\<close>

datatype Cleanup = CleanupVoid | CancelDataMove KeyRange

datatype Actor =
    CleanUpDataMove UID KeyRange
  | CancelDataMoveActor KeyRange
  | DataDistributionRelocator RelocateData Cleanup

record DDDataMove =
  dm_id :: UID
  dm_cancel :: "Actor Future"

definition newDDDataMove :: "UID \<Rightarrow> DDDataMove" where
  "newDDDataMove i = \<lparr> dm_id = i, dm_cancel = Invalid \<rparr>"

definition dm_isValid :: "DDDataMove \<Rightarrow> bool" where
  "dm_isValid d = uid_isValid (dm_id d)"

record DDQueueData =
  activeRelocations :: int
  queuedRelocations :: int
  teamSize :: int
  singleRegionTeamSize :: int
  busymap :: BusyMap
  destBusymap :: BusyMap
  queueMap :: "RelocateData KeyRangeMap"
  fetchingSourcesQueue :: RelocateSet
  fetchKeysComplete :: RelocateSet
  queue :: QueueMap
  inFlight :: "RelocateData KeyRangeMap"
  inFlightActors :: "Actor Future KeyRangeMap"
  dataMoves :: "DDDataMove KeyRangeMap"
  priority_relocations :: "int \<Rightarrow> int"
  unhealthyRelocations :: int
  rawProcessingUnhealthy :: bool
  rawProcessingWiggle :: bool
  randomSource :: "nat \<Rightarrow> UID"
  randomDraws :: nat
  isSimulated :: bool
  started :: "Actor list"
  traceLog :: "TraceEvent list"

definition trace :: "Severity \<Rightarrow> string \<Rightarrow> DDQueueData \<Rightarrow> DDQueueData" where
  "trace sev name st = st\<lparr> traceLog := traceLog st @ [\<lparr> severity = sev, eventType = name \<rparr>] \<rparr>"

definition countsAsUnhealthy :: "ServerKnobs \<Rightarrow> int \<Rightarrow> bool" where
  "countsAsUnhealthy knobs hp =
     (hp = PRIORITY_POPULATE_REGION knobs \<or> hp = PRIORITY_TEAM_UNHEALTHY knobs \<or>
      hp = PRIORITY_TEAM_2_LEFT knobs \<or> hp = PRIORITY_TEAM_1_LEFT knobs \<or>
      hp = PRIORITY_TEAM_0_LEFT knobs \<or> hp = PRIORITY_TEAM_REDUNDANT knobs)"

definition startRelocation :: "ServerKnobs \<Rightarrow> int \<Rightarrow> int \<Rightarrow> DDQueueData \<Rightarrow> DDQueueData" where
  "startRelocation knobs prio hp st =
     (let st1 = (if countsAsUnhealthy knobs hp
                 then st\<lparr> unhealthyRelocations := unhealthyRelocations st + 1,
                          rawProcessingUnhealthy := True \<rparr>
                 else st);
          st2 = (if hp = PRIORITY_PERPETUAL_STORAGE_WIGGLE knobs
                 then st1\<lparr> rawProcessingWiggle := True \<rparr> else st1)
      in st2\<lparr> priority_relocations :=
                 (priority_relocations st2)(prio := priority_relocations st2 prio + 1) \<rparr>)"

definition finishRelocation :: "ServerKnobs \<Rightarrow> int \<Rightarrow> int \<Rightarrow> DDQueueData \<Rightarrow> error + DDQueueData" where
  "finishRelocation knobs prio hp st =
     (if countsAsUnhealthy knobs hp \<and> \<not> unhealthyRelocations st - 1 \<ge> 0 then Inl internal_error
      else
        let st1 = (if countsAsUnhealthy knobs hp
                   then (let u = unhealthyRelocations st - 1
                         in if u = 0
                            then st\<lparr> unhealthyRelocations := u, rawProcessingUnhealthy := False \<rparr>
                            else st\<lparr> unhealthyRelocations := u \<rparr>)
                   else st);
            st2 = st1\<lparr> priority_relocations :=
                         (priority_relocations st1)(prio := priority_relocations st1 prio - 1) \<rparr>
        in Inr (if priority_relocations st2 (PRIORITY_PERPETUAL_STORAGE_WIGGLE knobs) = 0
                then st2\<lparr> rawProcessingWiggle := False \<rparr> else st2))"

definition randomUniqueID :: "DDQueueData \<Rightarrow> UID \<times> DDQueueData" where
  "randomUniqueID st = (randomSource st (randomDraws st), st\<lparr> randomDraws := randomDraws st + 1 \<rparr>)"

section \<open>Cancelled data moves\<close>

fun firstValidDataMove :: "(KeyRange \<times> DDDataMove) list \<Rightarrow> (KeyRange \<times> DDDataMove) option" where
  "firstValidDataMove [] = None"
| "firstValidDataMove (e # es) = (if dm_isValid (snd e) then Some e else firstValidDataMove es)"

definition enqueueCancelledDataMove :: "DDQueueData \<Rightarrow> UID \<Rightarrow> KeyRange \<Rightarrow> DDQueueData" where
  "enqueueCancelledDataMove st moveId cancelledRange =
     (case firstValidDataMove (intersectingRanges (dataMoves st) cancelledRange) of
        Some e \<Rightarrow> trace SevError ''DDEnqueueCancelledDataMoveConflict'' st
      | None \<Rightarrow>
          let st1 = st\<lparr> started := started st @ [CleanUpDataMove moveId cancelledRange] \<rparr>;
              dm = \<lparr> dm_id = moveId,
                           dm_cancel = Pending (CleanUpDataMove moveId cancelledRange) \<rparr>;
              st2 = st1\<lparr> dataMoves := kr_insert (dataMoves st1) cancelledRange dm \<rparr>
          in trace SevInfo ''DDEnqueuedCancelledDataMove'' st2)"

section \<open>Queueing a relocation\<close>

text \<open>
  Modelled from the spec: \<^verbatim>\<open>RelocateShard\<close> is declared outside the sources at hand;
  section 6.4 of the specification lists its fields. Its three-argument constructor is
  taken to derive the priority from the move reason and to leave the other fields at
  their defaults.
\<close>

record RelocateShard =
  rs_keys :: KeyRange
  rs_priority :: int
  rs_cancelled :: bool
  rs_dataMove :: "DataMove option"
  rs_dataMoveId :: UID
  rs_reason :: RelocateReason
  rs_moveReason :: DataMovementReason

definition newRelocateShard ::
  "ServerKnobs \<Rightarrow> KeyRange \<Rightarrow> DataMovementReason \<Rightarrow> RelocateReason \<Rightarrow> RelocateShard" where
  "newRelocateShard knobs ks moveReason rsn =
     \<lparr> rs_keys = ks, rs_priority = dataMovementPriority knobs moveReason, rs_cancelled = False,
       rs_dataMove = None, rs_dataMoveId = anonymousShardId, rs_reason = rsn,
       rs_moveReason = moveReason \<rparr>"

text \<open>The constructor \<^verbatim>\<open>RelocateData(RelocateShard const&)\<close>; the clock and the random
  identifier are inputs.\<close>

definition newRelocateData :: "ServerKnobs \<Rightarrow> real \<Rightarrow> UID \<Rightarrow> RelocateShard \<Rightarrow> RelocateData" where
  "newRelocateData knobs now rid rs =
     \<lparr> keys = rs_keys rs,
       priority = rs_priority rs,
       boundaryPriority = (if isBoundaryPriority knobs (rs_priority rs) then rs_priority rs else - 1),
       healthPriority = (if isHealthPriority knobs (rs_priority rs) then rs_priority rs else - 1),
       reason = rs_reason rs,
       startTime = now,
       randomId = rid,
       dataMoveId = rs_dataMoveId rs,
       workFactor = 0,
       src = (case rs_dataMove rs of None \<Rightarrow> [] | Some dm \<Rightarrow> meta_src dm),
       completeSources = [],
       completeDests = [],
       wantsNewServers =
         (isDataMovementForMountainChopper (rs_moveReason rs) \<or>
          isDataMovementForValleyFiller (rs_moveReason rs) \<or>
          rs_moveReason rs = SPLIT_SHARD \<or> rs_moveReason rs = TEAM_REDUNDANT),
       cancellable = True,
       interval = ''QueuedRelocation'',
       dataMove = rs_dataMove rs \<rparr>"

text \<open>The body of \<^verbatim>\<open>if (foundActiveFetching || foundActiveRelocation)\<close> in the first
  loop of \<^verbatim>\<open>queueRelocation\<close>.\<close>

definition inheritIntent :: "bool \<Rightarrow> bool \<Rightarrow> RelocateData \<Rightarrow> RelocateData \<Rightarrow> RelocateData" where
  "inheritIntent hasHealthPriority hasBoundaryPriority rrs rd =
     (let rd1 = rd\<lparr> wantsNewServers := wantsNewServers rd \<or> wantsNewServers rrs \<rparr>;
          rd2 = rd1\<lparr> startTime := min (startTime rd1) (startTime rrs) \<rparr>;
          rd3 = (if \<not> hasHealthPriority
                 then rd2\<lparr> healthPriority := max (healthPriority rd2) (healthPriority rrs) \<rparr>
                 else rd2);
          rd4 = (if \<not> hasBoundaryPriority
                 then rd3\<lparr> boundaryPriority := max (boundaryPriority rd3) (boundaryPriority rrs) \<rparr>
                 else rd3)
      in rd4\<lparr> priority := max (priority rd4) (max (boundaryPriority rd4) (healthPriority rd4)) \<rparr>)"

fun eraseFromQueues :: "RelocateData \<Rightarrow> UID list \<Rightarrow> QueueMap \<Rightarrow> QueueMap" where
  "eraseFromQueues rrs [] q = q"
| "eraseFromQueues rrs (s # ss) q =
     (case queue_at q s of (qs, q') \<Rightarrow> eraseFromQueues rrs ss (q'(s \<mapsto> set_erase qs rrs)))"

text \<open>A \<^verbatim>\<open>std::set<UID>\<close> is the ascending list of its elements.\<close>

definition uidset_insert_all :: "UID list \<Rightarrow> UID list \<Rightarrow> UID list" where
  "uidset_insert_all xs s = fold insort_insert xs s"

text \<open>The lookups at the head of the first loop of \<^verbatim>\<open>queueRelocation\<close>: the flags
  \<^verbatim>\<open>foundActiveFetching\<close> and \<^verbatim>\<open>foundActiveRelocation\<close> (the second is looked up only
  when the first is false and \<open>rrs\<close> has a source server).\<close>

definition findActive :: "DDQueueData \<Rightarrow> RelocateData \<Rightarrow> bool \<times> bool \<times> DDQueueData" where
  "findActive st rrs =
     (let foundActiveFetching = (set_count (fetchingSourcesQueue st) rrs \<noteq> 0)
      in if \<not> foundActiveFetching \<and> length (src rrs) \<noteq> 0
         then (case queue_at (queue st) (hd (src rrs)) of
                 (firstQueue, q') \<Rightarrow>
                   (foundActiveFetching, set_count firstQueue rrs \<noteq> 0, st\<lparr> queue := q' \<rparr>))
         else (foundActiveFetching, False, st))"

text \<open>The body of \<^verbatim>\<open>if (rd.keys.contains(rrs.keys))\<close>. The source erases the element
  found in the queue of the first source server through its iterator and erases \<open>rrs\<close>
  by key from the queues of the other source servers; both erase the one element of
  the set that the order does not separate from \<open>rrs\<close>.\<close>

definition eraseContained ::
  "RelocateData \<Rightarrow> RelocateData \<Rightarrow> bool \<Rightarrow> bool \<Rightarrow> DDQueueData \<Rightarrow> DDQueueData" where
  "eraseContained rd rrs foundActiveFetching foundActiveRelocation st =
     (if keyRange_contains (keys rd) (keys rrs)
      then (if foundActiveFetching
            then st\<lparr> fetchingSourcesQueue := set_erase (fetchingSourcesQueue st) rrs \<rparr>
            else if foundActiveRelocation
            then st\<lparr> queue := eraseFromQueues rrs (src rrs) (queue st) \<rparr>
            else st)
      else st)"

text \<open>One pass of the first loop of \<^verbatim>\<open>queueRelocation\<close>, for the entry \<open>rrs\<close> of
  \<^verbatim>\<open>queueMap\<close>; the loop state is the new relocation \<open>rd\<close>, the set
  \<^verbatim>\<open>serversToLaunchFrom\<close> and the queue.\<close>

definition queueRelocation_visit ::
  "ServerKnobs \<Rightarrow> bool \<Rightarrow> bool \<Rightarrow> RelocateData \<Rightarrow> RelocateData \<times> UID list \<times> DDQueueData
     \<Rightarrow> error + RelocateData \<times> UID list \<times> DDQueueData" where
  "queueRelocation_visit knobs hasHealthPriority hasBoundaryPriority rrs acc =
     (case acc of
        (rd, serversToLaunchFrom, st) \<Rightarrow>
          (case findActive st rrs of
             (foundActiveFetching, foundActiveRelocation, st1) \<Rightarrow>
               let rd1 = (if foundActiveFetching \<or> foundActiveRelocation
                          then inheritIntent hasHealthPriority hasBoundaryPriority rrs rd else rd);
                   st2 = eraseContained rd1 rrs foundActiveFetching foundActiveRelocation st1
               in if foundActiveFetching \<or> foundActiveRelocation
                  then (case finishRelocation knobs (priority rrs) (healthPriority rrs)
                               (trace SevVerbose ''QueuedRelocationsChanged''
                                  (st2\<lparr> queuedRelocations := queuedRelocations st2 - 1 \<rparr>)) of
                          Inl e \<Rightarrow> Inl e
                        | Inr st3 \<Rightarrow>
                            Inr (rd1, uidset_insert_all (src rrs) serversToLaunchFrom, st3))
                  else Inr (rd1, serversToLaunchFrom, st2)))"

fun queueRelocation_loop ::
  "ServerKnobs \<Rightarrow> bool \<Rightarrow> bool \<Rightarrow> (KeyRange \<times> RelocateData) list
     \<Rightarrow> RelocateData \<times> UID list \<times> DDQueueData \<Rightarrow> error + RelocateData \<times> UID list \<times> DDQueueData" where
  "queueRelocation_loop knobs hh hb [] acc = Inr acc"
| "queueRelocation_loop knobs hh hb (r # ranges) acc =
     (case queueRelocation_visit knobs hh hb (snd r) acc of
        Inl e \<Rightarrow> Inl e
      | Inr acc' \<Rightarrow> queueRelocation_loop knobs hh hb ranges acc')"

text \<open>\<^verbatim>\<open>queueRelocation\<close> up to the end of its first loop (the insertion into
  \<^verbatim>\<open>queueMap\<close> and the re-queueing of the affected ranges follow it).\<close>

definition queueRelocation_merge ::
  "ServerKnobs \<Rightarrow> real \<Rightarrow> UID \<Rightarrow> RelocateShard \<Rightarrow> UID list \<Rightarrow> DDQueueData
     \<Rightarrow> error + RelocateData \<times> UID list \<times> DDQueueData" where
  "queueRelocation_merge knobs now rid rs serversToLaunchFrom st =
     (let rd = newRelocateData knobs now rid rs;
          hasHealthPriority = isHealthPriority knobs (priority rd);
          hasBoundaryPriority = isBoundaryPriority knobs (priority rd)
      in queueRelocation_loop knobs hasHealthPriority hasBoundaryPriority
           (intersectingRanges (queueMap st) (keys rd)) (rd, serversToLaunchFrom, st))"

text \<open>The condition under which the entry \<open>rrs\<close> counts as active, in the words of the
  specification.\<close>

definition isActive :: "DDQueueData \<Rightarrow> RelocateData \<Rightarrow> bool" where
  "isActive st rrs =
     (list_ex (rd_equiv rrs) (fetchingSourcesQueue st) \<or>
      (src rrs \<noteq> [] \<and> list_ex (rd_equiv rrs) (queueOf (queue st) (hd (src rrs)))))"

text \<open>The values of the entries of \<^verbatim>\<open>queueMap\<close> that intersect a range, in key order, and
  the entries among them whose cancellation is counted by \<^verbatim>\<open>finishRelocation\<close> as the end
  of an unhealthy relocation.\<close>

definition intersectingEntries :: "DDQueueData \<Rightarrow> KeyRange \<Rightarrow> RelocateData list" where
  "intersectingEntries st ks = map snd (intersectingRanges (queueMap st) ks)"

definition activeUnhealthy :: "ServerKnobs \<Rightarrow> DDQueueData \<Rightarrow> RelocateData \<Rightarrow> bool" where
  "activeUnhealthy knobs st rrs = (isActive st rrs \<and> countsAsUnhealthy knobs (healthPriority rrs))"

text \<open>No active entry of the list shares its place in the order of the queues with a
  later entry: the entries that are active are different relocations.\<close>

fun activeDistinct :: "DDQueueData \<Rightarrow> RelocateData list \<Rightarrow> bool" where
  "activeDistinct st [] = True"
| "activeDistinct st (e # es) =
     ((isActive st e \<longrightarrow> \<not> list_ex (rd_equiv e) es) \<and> activeDistinct st es)"

text \<open>The new relocation \<open>rd\<close> with the intent of the active entries \<open>acts\<close> merged in, in
  the words of the specification: \<open>wantsNewServers\<close> is or-ed with theirs, the start time
  is the earliest, the health priority (boundary priority) is raised to the largest of
  theirs unless the original priority of \<open>rd\<close> is a health (boundary) priority, and, if
  there is an active entry, the priority is the maximum of the priority of \<open>rd\<close> and the
  two others.\<close>

definition inherited :: "bool \<Rightarrow> bool \<Rightarrow> RelocateData \<Rightarrow> RelocateData list \<Rightarrow> RelocateData" where
  "inherited hasHealthPriority hasBoundaryPriority rd acts =
     (let hp = (if hasHealthPriority then healthPriority rd
                else Max (insert (healthPriority rd) (healthPriority ` set acts)));
          bp = (if hasBoundaryPriority then boundaryPriority rd
                else Max (insert (boundaryPriority rd) (boundaryPriority ` set acts)))
      in rd\<lparr> wantsNewServers := wantsNewServers rd \<or> list_ex wantsNewServers acts,
             startTime := Min (insert (startTime rd) (startTime ` set acts)),
             healthPriority := hp,
             boundaryPriority := bp,
             priority := (if acts = [] then priority rd else max (priority rd) (max bp hp)) \<rparr>)"

section \<open>Launching and completing work on the ledgers\<close>

fun launch_loop :: "int \<Rightarrow> int \<Rightarrow> UID list \<Rightarrow> BusyMap \<Rightarrow> error + BusyMap" where
  "launch_loop prio work [] bm = Inr bm"
| "launch_loop prio work (s # ss) bm =
     (case busymap_at bm s of
        (b, bm') \<Rightarrow>
          (case addWork b prio work of
             Inl e \<Rightarrow> Inl e
           | Inr b' \<Rightarrow> launch_loop prio work ss (bm'(s \<mapsto> b'))))"

definition launch :: "ServerKnobs \<Rightarrow> RelocateData \<Rightarrow> BusyMap \<Rightarrow> int \<Rightarrow> error + RelocateData \<times> BusyMap" where
  "launch knobs relocation bm srSize =
     (case getSrcWorkFactor knobs relocation srSize of
        Inl e \<Rightarrow> Inl e
      | Inr work \<Rightarrow>
          (case launch_loop (priority relocation) work (src relocation) bm of
             Inl e \<Rightarrow> Inl e
           | Inr bm' \<Rightarrow> Inr (relocation\<lparr> workFactor := work \<rparr>, bm')))"

text \<open>A candidate team is the list of its server identifiers
  (\<^verbatim>\<open>team->getServerIDs()\<close>) with the flag it is paired with.\<close>

type_synonym CandidateTeams = "(UID list \<times> bool) list"

fun canLaunchDest_loop :: "int \<Rightarrow> int \<Rightarrow> UID list \<Rightarrow> BusyMap \<Rightarrow> error + bool \<times> BusyMap" where
  "canLaunchDest_loop prio work [] bm = Inr (True, bm)"
| "canLaunchDest_loop prio work (s # ss) bm =
     (case busymap_at bm s of
        (b, bm') \<Rightarrow>
          (case canLaunch b prio work of
             Inl e \<Rightarrow> Inl e
           | Inr ok \<Rightarrow> if \<not> ok then Inr (False, bm') else canLaunchDest_loop prio work ss bm'))"

definition canLaunchDest :: "ServerKnobs \<Rightarrow> CandidateTeams \<Rightarrow> int \<Rightarrow> BusyMap \<Rightarrow> error + bool \<times> BusyMap" where
  "canLaunchDest knobs candidateTeams prio busymapDest =
     (if RELOCATION_PARALLELISM_PER_DEST_SERVER knobs \<le> 0 then Inr (True, busymapDest)
      else (case getDestWorkFactor knobs of
              Inl e \<Rightarrow> Inl e
            | Inr work \<Rightarrow> canLaunchDest_loop prio work (concat (map fst candidateTeams)) busymapDest))"

fun launchDest_loop :: "int \<Rightarrow> UID list \<Rightarrow> RelocateData \<times> BusyMap \<Rightarrow> error + RelocateData \<times> BusyMap" where
  "launchDest_loop destWorkFactor [] acc = Inr acc"
| "launchDest_loop destWorkFactor (s # ss) acc =
     (case acc of
        (relocation, bm) \<Rightarrow>
          (case busymap_at bm s of
             (b, bm') \<Rightarrow>
               (case addWork b (priority relocation) destWorkFactor of
                  Inl e \<Rightarrow> Inl e
                | Inr b' \<Rightarrow>
                    launchDest_loop destWorkFactor ss
                      (relocation\<lparr> completeDests := completeDests relocation @ [s] \<rparr>,
                       bm'(s \<mapsto> b')))))"

definition launchDest ::
  "ServerKnobs \<Rightarrow> RelocateData \<Rightarrow> CandidateTeams \<Rightarrow> BusyMap \<Rightarrow> error + RelocateData \<times> BusyMap" where
  "launchDest knobs relocation candidateTeams dbm =
     (if \<not> completeDests relocation = [] then Inl internal_error
      else (case getDestWorkFactor knobs of
              Inl e \<Rightarrow> Inl e
            | Inr destWorkFactor \<Rightarrow>
                launchDest_loop destWorkFactor (concat (map fst candidateTeams)) (relocation, dbm)))"

fun complete_loop :: "int \<Rightarrow> int \<Rightarrow> UID list \<Rightarrow> BusyMap \<Rightarrow> error + BusyMap" where
  "complete_loop prio work [] bm = Inr bm"
| "complete_loop prio work (s # ss) bm =
     (case busymap_at bm s of
        (b, bm') \<Rightarrow>
          (case removeWork b prio work of
             Inl e \<Rightarrow> Inl e
           | Inr b' \<Rightarrow> complete_loop prio work ss (bm'(s \<mapsto> b'))))"

definition completeDest :: "ServerKnobs \<Rightarrow> RelocateData \<Rightarrow> BusyMap \<Rightarrow> error + BusyMap" where
  "completeDest knobs relocation dbm =
     (case getDestWorkFactor knobs of
        Inl e \<Rightarrow> Inl e
      | Inr destWorkFactor \<Rightarrow>
          complete_loop (priority relocation) destWorkFactor (completeDests relocation) dbm)"

definition complete ::
  "ServerKnobs \<Rightarrow> RelocateData \<Rightarrow> BusyMap \<Rightarrow> BusyMap \<Rightarrow> error + BusyMap \<times> BusyMap" where
  "complete knobs relocation bm dbm =
     (if \<not> workFactor relocation > 0 then Inl internal_error
      else (case complete_loop (priority relocation) (workFactor relocation) (src relocation) bm of
              Inl e \<Rightarrow> Inl e
            | Inr bm' \<Rightarrow>
                (case completeDest knobs relocation dbm of
                   Inl e \<Rightarrow> Inl e
                 | Inr dbm' \<Rightarrow> Inr (bm', dbm'))))"

text \<open>The checks of \<^verbatim>\<open>validate\<close> on one ledger: the levels at which it reports an
  ascending ledger and the levels at which it reports a negative entry.\<close>

definition validate_ascending :: "Busyness \<Rightarrow> nat list" where
  "validate_ascending b =
     filter (\<lambda>i. ledger b ! i < ledger b ! (i + 1)) [0..<length (ledger b) - 1]"

definition validate_negative :: "Busyness \<Rightarrow> nat list" where
  "validate_negative b = filter (\<lambda>i. ledger b ! i < 0) [0..<length (ledger b) - 1]"

section \<open>Launching queued work\<close>

text \<open>The candidates of \<^verbatim>\<open>launchQueuedWork(const std::set<UID>&, ...)\<close>: the loop
  \<^verbatim>\<open>for (int j = 0; j < teamSize && it != queuedWork.end(); j++)\<close> over one queue, and
  the loop over the servers.\<close>

fun takeFromQueue :: "int \<Rightarrow> int \<Rightarrow> RelocateData list \<Rightarrow> RelocateSet \<Rightarrow> RelocateSet" where
  "takeFromQueue j tSize [] combined = combined"
| "takeFromQueue j tSize (x # it) combined =
     (if j < tSize then takeFromQueue (j + 1) tSize it (set_insert x combined) else combined)"

fun combineFromServers :: "int \<Rightarrow> UID list \<Rightarrow> RelocateSet \<times> QueueMap \<Rightarrow> RelocateSet \<times> QueueMap" where
  "combineFromServers tSize [] acc = acc"
| "combineFromServers tSize (i # ids) acc =
     (case acc of
        (combined, q) \<Rightarrow>
          (case queue_at q i of
             (queuedWork, q') \<Rightarrow>
               combineFromServers tSize ids (takeFromQueue 0 tSize queuedWork combined, q')))"

definition launchQueuedWork_servers_combined :: "DDQueueData \<Rightarrow> UID list \<Rightarrow> RelocateSet \<times> DDQueueData" where
  "launchQueuedWork_servers_combined st serversToLaunchFrom =
     (case combineFromServers (teamSize st) serversToLaunchFrom ([], queue st) of
        (combined, q) \<Rightarrow> (combined, st\<lparr> queue := q \<rparr>))"

text \<open>The candidates of \<^verbatim>\<open>launchQueuedWork(KeyRange, ...)\<close>.\<close>

fun combineFromRanges :: "(KeyRange \<times> RelocateData) list \<Rightarrow> RelocateSet \<times> QueueMap \<Rightarrow> RelocateSet \<times> QueueMap" where
  "combineFromRanges [] acc = acc"
| "combineFromRanges (e # es) acc =
     (case acc of
        (combined, q) \<Rightarrow>
          if length (src (snd e)) \<noteq> 0
          then (case queue_at q (hd (src (snd e))) of
                  (firstQueue, q') \<Rightarrow>
                    combineFromRanges es
                      (if set_count firstQueue (snd e) \<noteq> 0 then set_insert (snd e) combined
                       else combined, q'))
          else combineFromRanges es (combined, q))"

definition launchQueuedWork_keys_combined :: "DDQueueData \<Rightarrow> KeyRange \<Rightarrow> RelocateSet \<times> DDQueueData" where
  "launchQueuedWork_keys_combined st ks =
     (case combineFromRanges (intersectingRanges (queueMap st) ks) ([], queue st) of
        (combined, q) \<Rightarrow> (combined, st\<lparr> queue := q \<rparr>))"

text \<open>The search for an overlapping in-flight relocation that blocks \<open>rd\<close>
  (a loop with \<^verbatim>\<open>break\<close>).\<close>

fun overlappingInFlight ::
  "ServerKnobs \<Rightarrow> DDQueueData \<Rightarrow> RelocateData \<Rightarrow> (KeyRange \<times> RelocateData) list \<Rightarrow> bool" where
  "overlappingInFlight knobs st rd [] = False"
| "overlappingInFlight knobs st rd (e # es) =
     (if set_count (fetchKeysComplete st) (snd e) \<noteq> 0 \<and>
         liveActorAt (inFlightActors st) (range_begin (fst e)) \<and>
         \<not> keyRange_contains (keys rd) (fst e) \<and>
         priority (snd e) \<ge> priority rd \<and>
         healthPriority rd < PRIORITY_TEAM_UNHEALTHY knobs
      then True
      else overlappingInFlight knobs st rd es)"

fun cancellableOf :: "(KeyRange \<times> RelocateData) list \<Rightarrow> RelocateData list" where
  "cancellableOf [] = []"
| "cancellableOf (e # es) = (if cancellable (snd e) then snd e # cancellableOf es else cancellableOf es)"

fun eraseLaunched :: "RelocateData \<Rightarrow> UID list \<Rightarrow> QueueMap \<Rightarrow> error + QueueMap" where
  "eraseLaunched rd [] q = Inr q"
| "eraseLaunched rd (s # ss) q =
     (case queue_at q s of
        (qs, q') \<Rightarrow>
          if set_count qs rd = 0 then Inl internal_error
          else eraseLaunched rd ss (q'(s \<mapsto> set_erase qs rd)))"

fun inheritWantsNewServers ::
  "Actor Future KeyRangeMap \<Rightarrow> (KeyRange \<times> RelocateData) list \<Rightarrow> bool \<Rightarrow> bool" where
  "inheritWantsNewServers actors [] w = w"
| "inheritWantsNewServers actors (e # es) w =
     inheritWantsNewServers actors es
       (if liveActorAt actors (range_begin (fst e)) then w \<or> wantsNewServers (snd e) else w)"

text \<open>The loop over the affected ranges: each piece of the in-flight map is renamed,
  launched on the source ledgers and handed to a relocator.\<close>

fun launchRanges ::
  "ServerKnobs \<Rightarrow> RelocateData \<Rightarrow> Cleanup \<Rightarrow> KeyRange list \<Rightarrow> DDQueueData \<Rightarrow> error + DDQueueData" where
  "launchRanges knobs rd fCleanup [] st = Inr st"
| "launchRanges knobs rd fCleanup (r # ranges) st =
     (case rangeContaining (inFlight st) (range_begin r) of
        None \<Rightarrow> Inl out_of_bounds
      | Some e \<Rightarrow>
          (case (if keys rd = r \<and> isRestore rd
                 then (case dataMove rd of
                         None \<Rightarrow> Inl internal_error
                       | Some dm \<Rightarrow>
                           if \<not> SHARD_ENCODE_LOCATION_METADATA knobs then Inl internal_error
                           else Inr ((snd e)\<lparr> keys := r, dataMoveId := meta_id dm \<rparr>, st))
                 else if isSimulated st \<and> \<not> \<not> isRestore rd then Inl internal_error
                 else if SHARD_ENCODE_LOCATION_METADATA knobs
                 then (case randomUniqueID st of
                         (u, st') \<Rightarrow> Inr ((snd e)\<lparr> keys := r, dataMove := None, dataMoveId := u \<rparr>, st'))
                 else Inr ((snd e)\<lparr> keys := r, dataMove := None, dataMoveId := anonymousShardId \<rparr>, st))
           of
             Inl err \<Rightarrow> Inl err
           | Inr (rrs, st1) \<Rightarrow>
               (case launch knobs rrs (busymap st1) (singleRegionTeamSize st1) of
                  Inl err \<Rightarrow> Inl err
                | Inr (rrs', bm) \<Rightarrow>
                    let st2 = st1\<lparr> busymap := bm,
                                    inFlight := modifyContaining (inFlight st1) (range_begin r) (\<lambda>v. rrs'),
                                    activeRelocations := activeRelocations st1 + 1 \<rparr>;
                        st3 = startRelocation knobs (priority rrs') (healthPriority rrs')
                                (trace SevVerbose ''InFlightRelocationChange'' st2);
                        actor = DataDistributionRelocator rrs' fCleanup;
                        st4 = st3\<lparr> started := started st3 @ [actor],
                                    inFlightActors := kr_insert (inFlightActors st3) (keys rrs') (Pending actor) \<rparr>
                    in launchRanges knobs rd fCleanup ranges st4)))"

text \<open>The loop body of \<^verbatim>\<open>launchQueuedWork\<close> after the admission check.\<close>

definition launchAdmitted :: "ServerKnobs \<Rightarrow> RelocateData \<Rightarrow> DDQueueData \<Rightarrow> error + DDQueueData" where
  "launchAdmitted knobs rd0 st =
     (case (if \<not> isRestore rd0
            then (case finishRelocation knobs (priority rd0) (healthPriority rd0)
                         (trace SevVerbose ''QueuedRelocationsChanged''
                            (st\<lparr> queuedRelocations := queuedRelocations st - 1 \<rparr>)) of
                    Inl err \<Rightarrow> Inl err
                  | Inr st1 \<Rightarrow>
                      (case eraseLaunched rd0 (src rd0) (queue st1) of
                         Inl err \<Rightarrow> Inl err
                       | Inr q \<Rightarrow> Inr (st1\<lparr> queue := q \<rparr>)))
            else Inr st)
      of
        Inl err \<Rightarrow> Inl err
      | Inr st2 \<Rightarrow>
          let fCleanup = (if SHARD_ENCODE_LOCATION_METADATA knobs then CancelDataMove (keys rd0)
                          else CleanupVoid);
              st3 = (if SHARD_ENCODE_LOCATION_METADATA knobs
                     then st2\<lparr> started := started st2 @ [CancelDataMoveActor (keys rd0)] \<rparr> else st2);
              rd = rd0\<lparr> wantsNewServers :=
                          inheritWantsNewServers (inFlightActors st3)
                            (intersectingRanges (inFlight st3) (keys rd0)) (wantsNewServers rd0) \<rparr>;
              ranges = getRangesAffectedByInsertion (inFlightActors st3) (keys rd);
              st4 = st3\<lparr> inFlightActors :=
                           actors_cancel (inFlightActors st3)
                             \<lparr> range_begin = range_begin (hd ranges), range_end = range_end (last ranges) \<rparr> \<rparr>;
              st5 = st4\<lparr> inFlight := kr_insert (inFlight st4) (keys rd) rd \<rparr>
          in launchRanges knobs rd fCleanup ranges st5)"

text \<open>One pass of the loop of
  \<^verbatim>\<open>launchQueuedWork(std::set<RelocateData, std::greater<RelocateData>>, ...)\<close>, for the
  candidate \<open>rd\<close>. The result is the state in which the loop goes on to the next
  candidate; \<^verbatim>\<open>continue\<close> leaves the pass.\<close>

definition admissionCheck :: "ServerKnobs \<Rightarrow> RelocateData \<Rightarrow> DDQueueData \<Rightarrow> error + DDQueueData" where
  "admissionCheck knobs rd st =
     (let cancellableRelocations = cancellableOf (containedRanges (inFlight st) (keys rd))
      in if \<not> isRestore rd
         then (case canLaunchSrc knobs rd (teamSize st) (singleRegionTeamSize st) (busymap st)
                      cancellableRelocations of
                 Inl err \<Rightarrow> Inl err
               | Inr (admitted, bm) \<Rightarrow>
                   if \<not> admitted then Inr (st\<lparr> busymap := bm \<rparr>)
                   else launchAdmitted knobs rd (st\<lparr> busymap := bm \<rparr>))
         else launchAdmitted knobs rd st)"

definition launchQueuedWork_iteration :: "ServerKnobs \<Rightarrow> RelocateData \<Rightarrow> DDQueueData \<Rightarrow> error + DDQueueData" where
  "launchQueuedWork_iteration knobs rd st =
     (if overlappingInFlight knobs st rd (intersectingRanges (inFlight st) (keys rd))
      then (if \<not> \<not> isRestore rd then Inl internal_error else Inr st)
      else admissionCheck knobs rd st)"

text \<open>The condition of the specification for skipping \<open>rd\<close>: some in-flight entry
  that intersects \<open>rd.keys\<close> has completed its key fetch, has a live actor at the
  begin of its range, is not contained in \<open>rd.keys\<close> and has at least the priority of
  \<open>rd\<close>, while the health priority of \<open>rd\<close> is below \<^verbatim>\<open>PRIORITY_TEAM_UNHEALTHY\<close>.\<close>

definition blockedByInFlight :: "ServerKnobs \<Rightarrow> DDQueueData \<Rightarrow> RelocateData \<Rightarrow> bool" where
  "blockedByInFlight knobs st rd =
     (healthPriority rd < PRIORITY_TEAM_UNHEALTHY knobs \<and>
      list_ex (\<lambda>e. keyRange_intersects (fst e) (keys rd) \<and>
                   list_ex (rd_equiv (snd e)) (fetchKeysComplete st) \<and>
                   liveActorAt (inFlightActors st) (range_begin (fst e)) \<and>
                   \<not> keyRange_contains (keys rd) (fst e) \<and>
                   priority rd \<le> priority (snd e))
        (inFlight st))"

section \<open>Disk rebalancing\<close>

text \<open>
  \<^verbatim>\<open>rebalanceTeams\<close> is an actor: it waits for the average shard size, for the metrics
  of each shard it samples, and reads the shards of the source team before and after
  these waits. What it receives is an input of the model: the answers to its requests,
  the random draws, and the load of the two teams.
\<close>

record RebalanceEnv =
  env_isSimulated :: bool
  env_speedUpSimulation :: bool
  env_averageShardBytes :: int
  env_shardsFor :: "nat \<Rightarrow> KeyRange list"
  env_randomInt :: "nat \<Rightarrow> nat"
  env_shardBytes :: "nat \<Rightarrow> KeyRange \<Rightarrow> int"
  env_sourceBytes :: int
  env_destBytes :: int

definition randomChoice :: "RebalanceEnv \<Rightarrow> nat \<Rightarrow> KeyRange list \<Rightarrow> KeyRange" where
  "randomChoice env n shards = shards ! (env_randomInt env n mod length shards)"

text \<open>The sampling loop \<^verbatim>\<open>while (retries < REBALANCE_MAX_RETRIES)\<close>; the first argument
  counts the passes that remain. The result is the shard chosen, its size, and the
  number of shards sampled.\<close>

fun sampleShards ::
  "nat \<Rightarrow> RebalanceEnv \<Rightarrow> KeyRange list \<Rightarrow> nat \<Rightarrow> KeyRange \<times> int \<Rightarrow> KeyRange \<times> int \<times> nat" where
  "sampleShards 0 env shards retries cur = (fst cur, snd cur, retries)"
| "sampleShards (Suc n) env shards retries cur =
     (let testShard = randomChoice env retries shards;
          testBytes = env_shardBytes env retries testShard
      in if testBytes > snd cur
         then (if testBytes > env_averageShardBytes env then (testShard, testBytes, retries + 1)
               else sampleShards n env shards (retries + 1) (testShard, testBytes))
         else sampleShards n env shards (retries + 1) cur)"

text \<open>The size that the metrics report for the shard drawn at the pass \<open>i\<close> of the loop.\<close>

definition sampledBytes :: "RebalanceEnv \<Rightarrow> nat \<Rightarrow> int" where
  "sampledBytes env i = env_shardBytes env i (randomChoice env i (env_shardsFor env 0))"

fun shardPresent :: "KeyRange \<Rightarrow> KeyRange list \<Rightarrow> bool" where
  "shardPresent moveShard [] = False"
| "shardPresent moveShard (x # shards) = (if moveShard = x then True else shardPresent moveShard shards)"

record RebalanceResult =
  moved :: bool
  askedAverageShardBytes :: bool
  sent :: "RelocateShard list"
  skipReason :: "string option"

definition rebalanceTeams :: "ServerKnobs \<Rightarrow> RebalanceEnv \<Rightarrow> DataMovementReason \<Rightarrow> RebalanceResult" where
  "rebalanceTeams knobs env moveReason =
     (if env_isSimulated env \<and> env_speedUpSimulation env
      then \<lparr> moved = False, askedAverageShardBytes = False, sent = [], skipReason = None \<rparr>
      else
        let shards = env_shardsFor env 0
        in if \<not> length shards \<noteq> 0
           then \<lparr> moved = False, askedAverageShardBytes = True, sent = [],
                  skipReason = Some ''NoShardOnSource'' \<rparr>
           else
             (case sampleShards (nat (REBALANCE_MAX_RETRIES knobs)) env shards 0
                     (\<lparr> range_begin = [], range_end = [] \<rparr>, 0) of
                (moveShard, bytes, sampled) \<Rightarrow>
                  let sourceAndDestTooSimilar =
                        (env_sourceBytes env - env_destBytes env
                           \<le> 3 * max (MIN_SHARD_BYTES knobs) bytes)
                  in if sourceAndDestTooSimilar \<or> bytes = 0
                     then \<lparr> moved = False, askedAverageShardBytes = True, sent = [],
                            skipReason = Some (if sourceAndDestTooSimilar then ''TeamTooSimilar''
                                               else ''ShardZeroSize'') \<rparr>
                     else if shardPresent moveShard (env_shardsFor env 1)
                     then \<lparr> moved = True, askedAverageShardBytes = True,
                            sent = [newRelocateShard knobs moveShard moveReason REBALANCE_DISK],
                            skipReason = None \<rparr>
                     else \<lparr> moved = False, askedAverageShardBytes = True, sent = [],
                            skipReason = Some ''ShardNotPresent'' \<rparr>))"

section \<open>Concrete inputs\<close>

text \<open>A queued disk-rebalance relocation with three source servers, used as a
  concrete input below.\<close>

definition exampleRelocation :: RelocateData where
  "exampleRelocation = \<lparr>
     keys = \<lparr> range_begin = [1], range_end = [5] \<rparr>,
     priority = 120, boundaryPriority = - 1, healthPriority = - 1,
     reason = REBALANCE_DISK, startTime = 10, randomId = 77,
     dataMoveId = anonymousShardId, workFactor = 0,
     src = [1, 2, 3], completeSources = [1, 2, 3], completeDests = [],
     wantsNewServers = True, cancellable = True,
     interval = ''QueuedRelocation'', dataMove = None \<rparr>"

text \<open>Server 1 carries work up to bucket 1; part of it belongs to a cancellable
  in-flight relocation.\<close>

definition exampleBusymap :: BusyMap where
  "exampleBusymap = [1 \<mapsto> \<lparr> ledger = [10000, 10000, 0, 0, 0, 0, 0, 0, 0, 0] \<rparr>]"

definition exampleCancellable :: RelocateData where
  "exampleCancellable = exampleRelocation \<lparr> keys := \<lparr> range_begin = [2], range_end = [3] \<rparr>,
     priority := 110, randomId := 78, workFactor := 1666, src := [1] \<rparr>"

text \<open>
  Modelled from the spec: the maps of a fresh queue cover the whole key space with one
  entry that holds the default value (section 3: every byte of key space is mapped
  exactly once). The other fields are those set by the constructor of \<^verbatim>\<open>DDQueueData\<close>
  and by the default constructor of \<^verbatim>\<open>RelocateData\<close>.
\<close>

definition allKeys :: KeyRange where
  "allKeys = \<lparr> range_begin = [], range_end = [255, 255] \<rparr>"

definition defaultRelocateData :: RelocateData where
  "defaultRelocateData = \<lparr>
     keys = \<lparr> range_begin = [], range_end = [] \<rparr>,
     priority = - 1, boundaryPriority = - 1, healthPriority = - 1,
     reason = RelocateReason_INVALID, startTime = - 1, randomId = 0,
     dataMoveId = anonymousShardId, workFactor = 0,
     src = [], completeSources = [], completeDests = [],
     wantsNewServers = False, cancellable = False,
     interval = ''QueuedRelocation'', dataMove = None \<rparr>"

definition newDDQueueData :: "int \<Rightarrow> int \<Rightarrow> DDQueueData" where
  "newDDQueueData tSize srSize = \<lparr>
     activeRelocations = 0, queuedRelocations = 0,
     teamSize = tSize, singleRegionTeamSize = srSize,
     busymap = Map.empty, destBusymap = Map.empty,
     queueMap = [(allKeys, defaultRelocateData)],
     fetchingSourcesQueue = [], fetchKeysComplete = [],
     queue = Map.empty,
     inFlight = [(allKeys, defaultRelocateData)],
     inFlightActors = [(allKeys, Invalid)],
     dataMoves = [(allKeys, newDDDataMove 0)],
     priority_relocations = (\<lambda>p. 0),
     unhealthyRelocations = 0,
     rawProcessingUnhealthy = False, rawProcessingWiggle = False,
     randomSource = (\<lambda>n. 1000 + n), randomDraws = 0,
     isSimulated = False, started = [], traceLog = [] \<rparr>"

text \<open>An in-flight relocation of the range \<open>[1, 9)\<close> at priority \<^verbatim>\<open>TEAM_HEALTHY\<close> whose
  key fetch has completed and whose relocator is still running.\<close>

definition exampleInFlight :: RelocateData where
  "exampleInFlight = exampleRelocation \<lparr> keys := \<lparr> range_begin = [1], range_end = [9] \<rparr>,
     priority := 140, healthPriority := 140, randomId := 80, workFactor := 1666,
     wantsNewServers := False, cancellable := False \<rparr>"

definition blockedQueue :: DDQueueData where
  "blockedQueue = (newDDQueueData 3 3) \<lparr>
     activeRelocations := 1,
     inFlight := [(\<lparr> range_begin = [], range_end = [1] \<rparr>, defaultRelocateData),
                  (\<lparr> range_begin = [1], range_end = [9] \<rparr>, exampleInFlight),
                  (\<lparr> range_begin = [9], range_end = [255, 255] \<rparr>, defaultRelocateData)],
     inFlightActors := [(\<lparr> range_begin = [], range_end = [1] \<rparr>, Invalid),
                        (\<lparr> range_begin = [1], range_end = [9] \<rparr>,
                           Pending (DataDistributionRelocator exampleInFlight CleanupVoid)),
                        (\<lparr> range_begin = [9], range_end = [255, 255] \<rparr>, Invalid)],
     fetchKeysComplete := [exampleInFlight],
     priority_relocations := (\<lambda>p. if p = 140 then 1 else 0) \<rparr>"

text \<open>A restored data move over the range of \<open>exampleRelocation\<close>.\<close>

definition exampleRestore :: RelocateData where
  "exampleRestore = exampleRelocation \<lparr> priority := 110, randomId := 81,
     dataMove := Some \<lparr> meta_id = 9, meta_src = [1, 2, 3] \<rparr> \<rparr>"

text \<open>Two queued relocations of unhealthy teams: the first, of the range \<open>[1, 5)\<close>, waits
  for its source servers; the second, of the range \<open>[5, 9)\<close>, is in the queue of its
  source server. A request to merge the shards of the range \<open>[1, 9)\<close> covers both.\<close>

definition exampleFetching :: RelocateData where
  "exampleFetching = exampleRelocation \<lparr> priority := 700, healthPriority := 700,
     startTime := 5, randomId := 82, src := [], completeSources := [] \<rparr>"

definition exampleQueued :: RelocateData where
  "exampleQueued = exampleRelocation \<lparr> keys := \<lparr> range_begin = [5], range_end = [9] \<rparr>,
     priority := 800, healthPriority := 800, startTime := 7, randomId := 87, src := [1],
     completeSources := [1], wantsNewServers := False \<rparr>"

definition mergeQueue :: DDQueueData where
  "mergeQueue = (newDDQueueData 3 3) \<lparr>
     queuedRelocations := 2,
     queueMap := [(\<lparr> range_begin = [], range_end = [1] \<rparr>, defaultRelocateData),
                  (\<lparr> range_begin = [1], range_end = [5] \<rparr>, exampleFetching),
                  (\<lparr> range_begin = [5], range_end = [9] \<rparr>, exampleQueued),
                  (\<lparr> range_begin = [9], range_end = [255, 255] \<rparr>, defaultRelocateData)],
     fetchingSourcesQueue := [exampleFetching],
     queue := [1 \<mapsto> [exampleQueued]],
     priority_relocations := (\<lambda>p. if p = 700 \<or> p = 800 then 1 else 0),
     unhealthyRelocations := 2,
     rawProcessingUnhealthy := True \<rparr>"

definition exampleMergeRequest :: RelocateShard where
  "exampleMergeRequest =
     newRelocateShard exampleKnobs \<lparr> range_begin = [1], range_end = [9] \<rparr> MERGE_SHARD OTHER"

text \<open>Three queued relocations of one source server, in the order of its queue.\<close>

definition queuedFirst :: RelocateData where
  "queuedFirst = exampleRelocation \<lparr> priority := 700, healthPriority := 700, randomId := 84, src := [1] \<rparr>"

definition queuedSecond :: RelocateData where
  "queuedSecond = exampleRelocation \<lparr> priority := 140, healthPriority := 140, randomId := 85, src := [1] \<rparr>"

definition queuedThird :: RelocateData where
  "queuedThird = exampleRelocation \<lparr> randomId := 86, src := [1] \<rparr>"

definition busyServerQueue :: DDQueueData where
  "busyServerQueue = (newDDQueueData 2 2) \<lparr>
     queuedRelocations := 3,
     queue := [1 \<mapsto> [queuedFirst, queuedSecond, queuedThird]] \<rparr>"

text \<open>A source team with one large shard that is no longer among the shards of the
  team once its metrics have arrived.\<close>

definition shardGone :: RebalanceEnv where
  "shardGone = \<lparr>
     env_isSimulated = False, env_speedUpSimulation = False,
     env_averageShardBytes = 500000,
     env_shardsFor = (\<lambda>n. if n = 0 then [\<lparr> range_begin = [1], range_end = [5] \<rparr>] else []),
     env_randomInt = (\<lambda>n. n),
     env_shardBytes = (\<lambda>n ks. 1000000),
     env_sourceBytes = 1000000000, env_destBytes = 0 \<rparr>"

text \<open>A source team with two shards, both larger than the average; the first one drawn
  is the smaller of the two.\<close>

definition largeShardFirst :: RebalanceEnv where
  "largeShardFirst = \<lparr>
     env_isSimulated = False, env_speedUpSimulation = False,
     env_averageShardBytes = 500000,
     env_shardsFor = (\<lambda>n. [\<lparr> range_begin = [1], range_end = [5] \<rparr>,
                            \<lparr> range_begin = [5], range_end = [9] \<rparr>]),
     env_randomInt = (\<lambda>n. n),
     env_shardBytes = (\<lambda>n ks. if ks = \<lparr> range_begin = [1], range_end = [5] \<rparr> then 600000 else 900000),
     env_sourceBytes = 1000000000, env_destBytes = 0 \<rparr>"

text \<open>The destination fail switch: a parallelism knob that is not positive.\<close>

definition failSwitchKnobs :: ServerKnobs where
  "failSwitchKnobs = exampleKnobs \<lparr> RELOCATION_PARALLELISM_PER_DEST_SERVER := - 1 \<rparr>"

section \<open>Verified properties\<close>

subsection \<open>The ledger operations\<close>

lemma addWork_loop_upto:
  "0 \<le> i \<Longrightarrow> k < int (length l) \<Longrightarrow>
   \<exists>l'. addWork_loop [i..k] w l = Inr l' \<and> length l' = length l \<and>
        (\<forall>j<length l. l' ! j = l ! j + (if i \<le> int j \<and> int j \<le> k then w else 0))"
proof (induction "nat (k + 1 - i)" arbitrary: i l)
  case 0
  then have "[i..k] = []" by simp
  then show ?case using 0 by auto
next
  case (Suc n)
  then have ik: "i \<le> k" by linarith
  then have u: "[i..k] = i # [i+1..k]" by (rule upto_rec1)
  let ?l = "l[nat i := l ! nat i + w]"
  have n: "n = nat (k + 1 - (i + 1))" using Suc.hyps(2) by linarith
  have "0 \<le> i + 1" "k < int (length ?l)" using Suc.prems by auto
  from Suc.hyps(1)[OF n this] obtain l' where
    l': "addWork_loop [i+1..k] w ?l = Inr l'" "length l' = length ?l"
        "\<forall>j<length ?l. l' ! j = ?l ! j + (if i + 1 \<le> int j \<and> int j \<le> k then w else 0)"
    by blast
  have inb: "nat i < length l" using Suc.prems ik by linarith
  have "addWork_loop [i..k] w l = Inr l'" using u l'(1) Suc.prems(1) inb by simp
  moreover have "length l' = length l" using l'(2) by simp
  moreover have "\<forall>j<length l. l' ! j = l ! j + (if i \<le> int j \<and> int j \<le> k then w else 0)"
  proof (intro allI impI)
    fix j assume j: "j < length l"
    show "l' ! j = l ! j + (if i \<le> int j \<and> int j \<le> k then w else 0)"
    proof (cases "j = nat i")
      case True
      then show ?thesis using l'(3) j Suc.prems(1) ik by (auto simp: nth_list_update)
    next
      case False
      then have "int j \<noteq> i" using Suc.prems(1) by auto
      then show ?thesis using l'(3) j False by (auto simp: nth_list_update)
    qed
  qed
  ultimately show ?case by blast
qed

lemma prio_bucket: "0 < (p::int) \<Longrightarrow> p < 1000 \<Longrightarrow> 0 \<le> p sdiv 100 \<and> p sdiv 100 \<le> 9"
proof -
  assume a: "0 < p" "p < 1000"
  then have "p sdiv 100 = p div 100" by (simp add: signed_divide_int_def sgn_if)
  moreover have "0 \<le> p div 100" using a by simp
  moreover have "p div 100 \<le> 9" using a by linarith
  ultimately show ?thesis by simp
qed

lemma sdiv_pos_eq_div: "0 < (p::int) \<Longrightarrow> 0 < q \<Longrightarrow> p sdiv q = p div q"
  by (simp add: signed_divide_int_def sgn_if)

lemma addWork_closed:
  assumes "0 < p" "p < 1000" "length (ledger b) = 10"
  shows "\<exists>b'. addWork b p w = Inr b' \<and> length (ledger b') = 10 \<and>
           (\<forall>j<10. ledger b' ! j = ledger b ! j + (if int j \<le> p sdiv 100 then w else 0))"
proof -
  have "p sdiv 100 < int (length (ledger b))" using prio_bucket[OF assms(1,2)] assms(3) by simp
  from addWork_loop_upto[OF _ this, of 0 w] obtain l' where
    l': "addWork_loop [0..p sdiv 100] w (ledger b) = Inr l'" "length l' = length (ledger b)"
     "\<forall>j<length (ledger b). l' ! j = ledger b ! j + (if 0 \<le> int j \<and> int j \<le> p sdiv 100 then w else 0)"
    by auto
  show ?thesis using l' assms by (simp add: addWork_def addWork_indices_def)
qed

lemma addWork_removeWork_aux: 
  assumes "0 < p" "p < 1000" "length (ledger b) = 10"
  shows "\<exists>b' b''. addWork b p w = Inr b' \<and> removeWork b' p w = Inr b'' \<and> ledger b'' = ledger b"
proof -
  from addWork_closed[OF assms, of w] obtain b' where
    b': "addWork b p w = Inr b'" "length (ledger b') = 10"
       "\<forall>j<10. ledger b' ! j = ledger b ! j + (if int j \<le> p sdiv 100 then w else 0)" by blast
  from addWork_closed[OF assms(1,2) b'(2), of "- w"] obtain b'' where
    b'': "addWork b' p (- w) = Inr b''" "length (ledger b'') = 10"
       "\<forall>j<10. ledger b'' ! j = ledger b' ! j + (if int j \<le> p sdiv 100 then - w else 0)" by blast
  have "ledger b'' = ledger b"
    by (rule nth_equalityI) (use b'(3) b''(2,3) assms(3) in auto)
  then show ?thesis using b'(1) b''(1) by (simp add: removeWork_def)
qed


lemma wouldBeCancelled_closed:
  assumes "length (ledger b) = 10"
    and "\<forall>c\<in>set cs. srv \<in> set (src c) \<longrightarrow> 0 < priority c \<and> priority c < 1000"
  shows "\<exists>b'. wouldBeCancelled srv cs b = Inr b' \<and> length (ledger b') = 10 \<and>
           (\<forall>j<10. ledger b' ! j = ledger b ! j
               - sum_list (map workFactor
                   (filter (\<lambda>c. srv \<in> set (src c) \<and> int j \<le> priority c sdiv 100) cs)))"
  using assms
proof (induction cs arbitrary: b)
  case Nil
  then show ?case by simp
next
  case (Cons c cs)
  show ?case
  proof (cases "srv \<in> set (src c)")
    case False
    then have "count_list (src c) srv = 0" by (simp add: count_list_0_iff)
    then have "wouldBeCancelled srv (c # cs) b = wouldBeCancelled srv cs b" by simp
    moreover from Cons.IH[of b] Cons.prems obtain b' where
      "wouldBeCancelled srv cs b = Inr b'" "length (ledger b') = 10"
      "\<forall>j<10. ledger b' ! j = ledger b ! j
               - sum_list (map workFactor
                   (filter (\<lambda>c. srv \<in> set (src c) \<and> int j \<le> priority c sdiv 100) cs))"
      by auto
    ultimately show ?thesis using False by auto
  next
    case True
    then have cnt: "count_list (src c) srv \<noteq> 0" by (simp add: count_list_0_iff)
    have pr: "0 < priority c" "priority c < 1000" using Cons.prems(2) True by auto
    from addWork_closed[OF pr Cons.prems(1), of "- workFactor c"] obtain b1 where
      b1: "removeWork b (priority c) (workFactor c) = Inr b1" "length (ledger b1) = 10"
          "\<forall>j<10. ledger b1 ! j = ledger b ! j + (if int j \<le> priority c sdiv 100 then - workFactor c else 0)"
      by (auto simp: removeWork_def)
    from Cons.IH[OF b1(2)] Cons.prems(2) obtain b' where
      b': "wouldBeCancelled srv cs b1 = Inr b'" "length (ledger b') = 10"
      "\<forall>j<10. ledger b' ! j = ledger b1 ! j
               - sum_list (map workFactor
                   (filter (\<lambda>c. srv \<in> set (src c) \<and> int j \<le> priority c sdiv 100) cs))"
      by auto
    have "wouldBeCancelled srv (c # cs) b = Inr b'" using cnt b1(1) b'(1) by simp
    moreover have "\<forall>j<10. ledger b' ! j = ledger b ! j
               - sum_list (map workFactor
                   (filter (\<lambda>c. srv \<in> set (src c) \<and> int j \<le> priority c sdiv 100) (c # cs)))"
      using b'(3) b1(3) True by auto
    ultimately show ?thesis using b'(2) by blast
  qed
qed

lemma busymap_at_props:
  assumes "wfBusyMap m" "busymap_at m k = (b, m')"
  shows "b = busynessOf m k" "busynessOf m' = busynessOf m" "wfBusyMap m'" "length (ledger b) = 10"
proof -
  show "b = busynessOf m k" using assms(2)
    by (cases "m k") (auto simp: busymap_at_def busynessOf_def)
  show "busynessOf m' = busynessOf m"
  proof
    fix x show "busynessOf m' x = busynessOf m x" using assms(2)
      by (cases "m k") (auto simp: busymap_at_def busynessOf_def)
  qed
  show "wfBusyMap m'" using assms
    by (cases "m k") (auto simp: busymap_at_def wfBusyMap_def newBusyness_def split: if_splits)
  show "length (ledger b) = 10" using assms
    by (cases "m k") (auto simp: busymap_at_def wfBusyMap_def newBusyness_def)
qed

lemma admits_step:
  assumes wf: "wfBusyMap bm" and at: "busymap_at bm s = (b, bm')"
    and p: "0 < prio" "prio < 1000"
    and cs: "\<forall>c\<in>set cs. s \<in> set (src c) \<longrightarrow> 0 < priority c \<and> priority c < 1000"
  shows "\<exists>busyCopy. wouldBeCancelled s cs b = Inr busyCopy \<and>
           canLaunch busyCopy prio work = Inr (srcAdmits bm cs prio work s)"
proof -
  note bp = busymap_at_props[OF wf at]
  from wouldBeCancelled_closed[OF bp(4) cs] obtain bc where
    bc: "wouldBeCancelled s cs b = Inr bc" "length (ledger bc) = 10"
        "\<forall>j<10. ledger bc ! j = ledger b ! j
               - sum_list (map workFactor
                   (filter (\<lambda>c. s \<in> set (src c) \<and> int j \<le> priority c sdiv 100) cs))"
    by blast
  have bk: "0 \<le> prio sdiv 100" "prio sdiv 100 \<le> 9" using prio_bucket[OF p] by auto
  then have nb: "nat (prio sdiv 100) < 10" by linarith
  have "canLaunch bc prio work = Inr (ledger bc ! nat (prio sdiv 100) \<le> 10000 - work)"
    using p bk bc(2) nb by (simp add: canLaunch_def WORK_FULL_UTILIZATION_def)
  moreover have "(ledger bc ! nat (prio sdiv 100) \<le> 10000 - work) = srcAdmits bm cs prio work s"
    using bc(3) nb bk bp(1) by (auto simp: srcAdmits_def reducedLedger_def)
  ultimately show ?thesis using bc(1) by simp
qed

lemma canLaunchSrc_loop_count:
  assumes "wfBusyMap bm" "0 < prio" "prio < 1000" "1 \<le> needed"
    and "\<forall>c\<in>set cs. \<forall>s\<in>set ss. s \<in> set (src c) \<longrightarrow> 0 < priority c \<and> priority c < 1000"
  shows "\<exists>bm'. canLaunchSrc_loop prio work cs ss needed bm =
            Inr (needed \<le> int (length (filter (srcAdmits bm cs prio work) ss)), bm')"
  using assms
proof (induction ss arbitrary: needed bm)
  case Nil
  then show ?case by simp
next
  case (Cons s ss)
  obtain b bm1 where at: "busymap_at bm s = (b, bm1)" by (cases "busymap_at bm s")
  note bp = busymap_at_props[OF Cons.prems(1) at]
  have cs: "\<forall>c\<in>set cs. s \<in> set (src c) \<longrightarrow> 0 < priority c \<and> priority c < 1000"
    using Cons.prems(5) by auto
  from admits_step[OF Cons.prems(1) at Cons.prems(2,3) cs, of work] obtain bc where
    bc: "wouldBeCancelled s cs b = Inr bc"
        "canLaunch bc prio work = Inr (srcAdmits bm cs prio work s)" by blast
  have same: "srcAdmits bm1 cs prio work = srcAdmits bm cs prio work"
    using bp(2) by (simp add: srcAdmits_def reducedLedger_def fun_eq_iff)
  have rest: "\<forall>c\<in>set cs. \<forall>s\<in>set ss. s \<in> set (src c) \<longrightarrow> 0 < priority c \<and> priority c < 1000"
    using Cons.prems(5) by auto
  show ?case
  proof (cases "srcAdmits bm cs prio work s")
    case False
    from Cons.IH[OF bp(3) Cons.prems(2,3,4) rest] obtain bm' where
      "canLaunchSrc_loop prio work cs ss needed bm1 =
         Inr (needed \<le> int (length (filter (srcAdmits bm1 cs prio work) ss)), bm')" by blast
    then show ?thesis using at bc False same by simp
  next
    case True
    show ?thesis
    proof (cases "needed - 1 = 0")
      case z: True
      then show ?thesis using at bc True by simp
    next
      case nz: False
      then have "1 \<le> needed - 1" using Cons.prems(4) by linarith
      from Cons.IH[OF bp(3) Cons.prems(2,3) this rest] obtain bm' where
        "canLaunchSrc_loop prio work cs ss (needed - 1) bm1 =
           Inr (needed - 1 \<le> int (length (filter (srcAdmits bm1 cs prio work) ss)), bm')" by blast
      moreover have "(needed - 1 \<le> int (length (filter (srcAdmits bm cs prio work) ss)))
           = (needed \<le> int (length (filter (srcAdmits bm cs prio work) (s # ss))))"
        using True by auto
      ultimately show ?thesis using at bc True same nz by simp
    qed
  qed
qed

lemma neededServers_ge1:
  "length (src rd) \<noteq> 0 \<Longrightarrow> sr \<le> ts \<Longrightarrow> 1 \<le> neededServers_of knobs rd ts sr"
  by (cases "src rd") (auto simp: neededServers_of_def)


text \<open>
  Claim C8. For a ledger of ten buckets and a priority with \<open>0 < p < 1000\<close>,
  \<^verbatim>\<open>addWork(p, w)\<close> followed by \<^verbatim>\<open>removeWork(p, w)\<close> succeeds and leaves the ledger
  as it was.
\<close>

theorem addWork_removeWork_restores:
  assumes "0 < p" "p < 1000" "length (ledger b) = 10"
  shows "\<exists>b' b''. addWork b p w = Inr b' \<and> removeWork b' p w = Inr b'' \<and> ledger b'' = ledger b"
  using assms by (rule addWork_removeWork_aux)

theorem addWork_removeWork_restores_witness:
  "\<exists>b' b''. addWork \<lparr>ledger = [5, 5, 4, 3, 0, 0, 0, 0, 0, 0]\<rparr> 250 7 = Inr b' \<and>
      removeWork b' 250 7 = Inr b'' \<and> ledger b'' = [5, 5, 4, 3, 0, 0, 0, 0, 0, 0]"
  using addWork_removeWork_restores [of 250 "\<lparr>ledger = [5, 5, 4, 3, 0, 0, 0, 0, 0, 0]\<rparr>" 7]
  by simp

text \<open>
  Claim C10, as stated: under \<open>0 < priority < 1000\<close> every ledger access is at index
  \<open>priority / 100\<close>. This fails for \<^verbatim>\<open>addWork\<close> (and so for \<^verbatim>\<open>removeWork\<close>): at priority
  250 the loop writes the buckets 0, 1 and 2, not only bucket 2.
\<close>

theorem addWork_accesses_counterexample:
  "(0::int) < 250 \<and> (250::int) < 1000 \<and> (250::int) sdiv 100 = 2 \<and>
   addWork_indices 250 = [0, 1, 2] \<and>
   addWork \<lparr>ledger = [0, 0, 0, 0, 0, 0, 0, 0, 0, 0]\<rparr> 250 7
     = Inr \<lparr>ledger = [7, 7, 7, 0, 0, 0, 0, 0, 0, 0]\<rparr>"
  by (simp add: addWork_def addWork_indices_def signed_divide_int_def upto.simps)

text \<open>
  Claim C10, amended. The three operations assert \<open>0 < priority < 1000\<close>. Under this
  precondition and on a ledger of ten buckets, \<^verbatim>\<open>canLaunch\<close> returns what the comparison
  of bucket \<open>priority / 100\<close> with \<open>WORK_FULL_UTILIZATION - work\<close> gives; \<^verbatim>\<open>addWork\<close>
  returns the ledger with \<open>work\<close> added to every bucket \<open>0 .. priority / 100\<close> and the
  other buckets as they were, and \<^verbatim>\<open>removeWork\<close> the same with \<open>work\<close> subtracted. These
  buckets lie within \<open>[0, 9]\<close>, so no operation reads or writes out of bounds. The
  values are those of the source wherever the difference and the sums fit the type
  \<^verbatim>\<open>int\<close>.
\<close>

theorem busyness_accesses_in_bounds:
  "(\<not> (0 < prio \<and> prio < 1000) \<longrightarrow>
       canLaunch b prio work = Inl internal_error \<and> addWork b prio work = Inl internal_error \<and>
       removeWork b prio work = Inl internal_error) \<and>
   (0 < prio \<and> prio < 1000 \<and> length (ledger b) = 10 \<longrightarrow>
       0 \<le> prio sdiv 100 \<and> prio sdiv 100 \<le> 9 \<and>
       set (addWork_indices prio) = {0..prio sdiv 100} \<and>
       (\<exists>r. canLaunch b prio work = Inr r \<and>
            (fitsInt (WORK_FULL_UTILIZATION - work) \<longrightarrow>
               r = (ledger b ! nat (prio sdiv 100) \<le> WORK_FULL_UTILIZATION - work))) \<and>
       (\<exists>b'. addWork b prio work = Inr b' \<and> length (ledger b') = 10 \<and>
            (\<forall>j<10. if int j \<le> prio sdiv 100
                     then fitsInt (ledger b ! j + work) \<longrightarrow> ledger b' ! j = ledger b ! j + work
                     else ledger b' ! j = ledger b ! j)) \<and>
       (\<exists>b'. removeWork b prio work = Inr b' \<and> length (ledger b') = 10 \<and>
            (\<forall>j<10. if int j \<le> prio sdiv 100
                     then fitsInt (- work) \<and> fitsInt (ledger b ! j - work)
                            \<longrightarrow> ledger b' ! j = ledger b ! j - work
                     else ledger b' ! j = ledger b ! j)))"
proof (intro conjI impI)
  assume "\<not> (0 < prio \<and> prio < 1000)"
  then show "canLaunch b prio work = Inl internal_error" "addWork b prio work = Inl internal_error"
    "removeWork b prio work = Inl internal_error"
    by (auto simp: canLaunch_def addWork_def removeWork_def)
next
  assume a: "0 < prio \<and> prio < 1000 \<and> length (ledger b) = 10"
  then have p: "0 < prio" "prio < 1000" and len: "length (ledger b) = 10" by auto
  note bk = prio_bucket[OF p]
  show "0 \<le> prio sdiv 100" "prio sdiv 100 \<le> 9" using bk by auto
  show "set (addWork_indices prio) = {0..prio sdiv 100}" by (simp add: addWork_indices_def)
  have "nat (prio sdiv 100) < 10" using bk by linarith
  then have "canLaunch b prio work = Inr (ledger b ! nat (prio sdiv 100) \<le> WORK_FULL_UTILIZATION - work)"
    using p bk len by (simp add: canLaunch_def)
  then show "\<exists>r. canLaunch b prio work = Inr r \<and>
            (fitsInt (WORK_FULL_UTILIZATION - work) \<longrightarrow>
               r = (ledger b ! nat (prio sdiv 100) \<le> WORK_FULL_UTILIZATION - work))"
    by simp
  from addWork_closed[OF p len, of work] obtain b1 where
    b1: "addWork b prio work = Inr b1" "length (ledger b1) = 10"
        "\<forall>j<10. ledger b1 ! j = ledger b ! j + (if int j \<le> prio sdiv 100 then work else 0)"
    by blast
  have "\<forall>j<10. if int j \<le> prio sdiv 100
                then fitsInt (ledger b ! j + work) \<longrightarrow> ledger b1 ! j = ledger b ! j + work
                else ledger b1 ! j = ledger b ! j"
    using b1(3) by simp
  then show "\<exists>b'. addWork b prio work = Inr b' \<and> length (ledger b') = 10 \<and>
            (\<forall>j<10. if int j \<le> prio sdiv 100
                     then fitsInt (ledger b ! j + work) \<longrightarrow> ledger b' ! j = ledger b ! j + work
                     else ledger b' ! j = ledger b ! j)"
    using b1(1,2) by blast
  from addWork_closed[OF p len, of "- work"] obtain b2 where
    b2: "removeWork b prio work = Inr b2" "length (ledger b2) = 10"
        "\<forall>j<10. ledger b2 ! j = ledger b ! j + (if int j \<le> prio sdiv 100 then - work else 0)"
    by (auto simp: removeWork_def)
  have "\<forall>j<10. if int j \<le> prio sdiv 100
                then fitsInt (- work) \<and> fitsInt (ledger b ! j - work)
                       \<longrightarrow> ledger b2 ! j = ledger b ! j - work
                else ledger b2 ! j = ledger b ! j"
    using b2(3) by simp
  then show "\<exists>b'. removeWork b prio work = Inr b' \<and> length (ledger b') = 10 \<and>
            (\<forall>j<10. if int j \<le> prio sdiv 100
                     then fitsInt (- work) \<and> fitsInt (ledger b ! j - work)
                            \<longrightarrow> ledger b' ! j = ledger b ! j - work
                     else ledger b' ! j = ledger b ! j)"
    using b2(1,2) by blast
qed

theorem busyness_accesses_in_bounds_witness:
  "canLaunch \<lparr>ledger = [0, 0, 0, 0, 0, 0, 0, 0, 0, 0]\<rparr> 1000 5 = Inl internal_error \<and>
   canLaunch \<lparr>ledger = [9000, 9000, 8000, 0, 0, 0, 0, 0, 0, 0]\<rparr> 250 2500 = Inr False \<and>
   addWork \<lparr>ledger = [9000, 9000, 8000, 0, 0, 0, 0, 0, 0, 0]\<rparr> 250 2500
     = Inr \<lparr>ledger = [11500, 11500, 10500, 0, 0, 0, 0, 0, 0, 0]\<rparr> \<and>
   removeWork \<lparr>ledger = [9000, 9000, 8000, 0, 0, 0, 0, 0, 0, 0]\<rparr> 250 2500
     = Inr \<lparr>ledger = [6500, 6500, 5500, 0, 0, 0, 0, 0, 0, 0]\<rparr> \<and>
   addWork_indices 250 = [0, 1, 2]"
  using busyness_accesses_in_bounds [of 1000 "\<lparr>ledger = [0, 0, 0, 0, 0, 0, 0, 0, 0, 0]\<rparr>" 5]
    busyness_accesses_in_bounds [of 250 "\<lparr>ledger = [9000, 9000, 8000, 0, 0, 0, 0, 0, 0, 0]\<rparr>" 2500]
  by (simp add: WORK_FULL_UTILIZATION_def signed_divide_int_def addWork_indices_def upto.simps
        addWork_def removeWork_def canLaunch_def)


subsection \<open>Admission on the source servers\<close>

text \<open>
  Claim C1, as stated, quantifies over every team size. With
  \<open>teamSize < singleRegionTeamSize\<close> the number of needed servers is not positive, so
  the stated condition holds trivially, but \<^verbatim>\<open>canLaunchSrc\<close> fails its assertion
  \<^verbatim>\<open>ASSERT(teamSize >= singleRegionTeamSize)\<close> and returns nothing.
\<close>

theorem canLaunchSrc_counterexample:
  "workFactor exampleRelocation = 0 \<and> src exampleRelocation \<noteq> [] \<and>
   dataMove exampleRelocation = None \<and>
   getSrcWorkFactor exampleKnobs exampleRelocation 3 = Inr 1666 \<and>
   min (int (length (src exampleRelocation))) (1 - 3 + 1)
     \<le> int (length (filter (srcAdmits Map.empty [] (priority exampleRelocation) 1666)
                       (src exampleRelocation))) \<and>
   canLaunchSrc exampleKnobs exampleRelocation 1 3 Map.empty [] = Inl internal_error"
  by (simp add: canLaunchSrc_def getSrcWorkFactor_def cdiv_def exampleRelocation_def
        exampleKnobs_def WORK_FULL_UTILIZATION_def signed_divide_int_def)

text \<open>
  Claim C1, amended. Let \<open>rd\<close> have a non-empty \<open>src\<close> and work factor 0, let
  \<open>teamSize \<ge> singleRegionTeamSize\<close> and \<open>0 < rd.priority < 1000\<close> (the assertions of
  \<^verbatim>\<open>canLaunchSrc\<close> and \<^verbatim>\<open>canLaunch\<close>), let the source work factor of \<open>rd\<close> be defined
  (no division by zero), let every ledger have its ten buckets, and let every
  cancellable relocation that lists a source server of \<open>rd\<close> have a priority in
  \<open>(0, 1000)\<close>. Then \<^verbatim>\<open>canLaunchSrc\<close> returns, and it returns true if and only if at
  least \<open>min(|rd.src|, teamSize - singleRegionTeamSize + 1)\<close> entries of \<open>rd.src\<close> (under
  \<^verbatim>\<open>USE_OLD_NEEDED_SERVERS\<close>: at least \<open>max(1, |rd.src| - teamSize + 1)\<close>) satisfy
  \<open>ledger[rd.priority / 100] + workFactor \<le> 10000\<close> on the ledger reduced by the work
  of the cancellable relocations listing that server.
\<close>

theorem canLaunchSrc_iff_enough_servers:
  assumes "workFactor rd = 0" "src rd \<noteq> []" "srSize \<le> tSize"
    and "0 < priority rd" "priority rd < 1000"
    and "getSrcWorkFactor knobs rd srSize = Inr work"
    and "wfBusyMap bmap"
    and "\<forall>c\<in>set cancellableRelocations. \<forall>s\<in>set (src rd).
           s \<in> set (src c) \<longrightarrow> 0 < priority c \<and> priority c < 1000"
  shows "\<exists>bmap1.
     canLaunchSrc knobs rd tSize srSize bmap cancellableRelocations =
     Inr ((if USE_OLD_NEEDED_SERVERS knobs
           then max 1 (int (length (src rd)) - tSize + 1)
           else min (int (length (src rd))) (tSize - srSize + 1))
            \<le> int (length (filter (srcAdmits bmap cancellableRelocations (priority rd) work)
                              (src rd))),
          bmap1)"
proof -
  have n: "1 \<le> neededServers_of knobs rd tSize srSize"
    using assms(2,3) by (intro neededServers_ge1) auto
  from canLaunchSrc_loop_count[OF assms(7,4,5) n assms(8), of work]
  show ?thesis using assms(1,2,3,6) by (simp add: canLaunchSrc_def neededServers_of_def)
qed

theorem canLaunchSrc_iff_enough_servers_witness:
  "\<exists>bmap1. canLaunchSrc exampleKnobs exampleRelocation 5 3 exampleBusymap [exampleCancellable]
      = Inr (True, bmap1)"
  using canLaunchSrc_iff_enough_servers [of exampleRelocation 3 5 exampleKnobs 1666
      exampleBusymap "[exampleCancellable]"]
  by (simp add: getSrcWorkFactor_def cdiv_def exampleRelocation_def exampleCancellable_def
        exampleBusymap_def exampleKnobs_def WORK_FULL_UTILIZATION_def signed_divide_int_def
        wfBusyMap_def srcAdmits_def reducedLedger_def busynessOf_def newBusyness_def)


subsection \<open>Equality of relocations\<close>

text \<open>
  Claim C6, as stated: \<^verbatim>\<open>operator==\<close> distinguishes two relocations that differ only in
  \<open>dataMoveId\<close>, only in \<open>completeDests\<close>, or only in \<open>cancellable\<close>. It does not: the
  operator never reads these fields.
\<close>

theorem rd_eq_counterexample:
  "rd_eq exampleRelocation (exampleRelocation \<lparr> dataMoveId := 5 \<rparr>) \<and>
   dataMoveId exampleRelocation \<noteq> 5 \<and>
   rd_eq exampleRelocation (exampleRelocation \<lparr> completeDests := [9] \<rparr>) \<and>
   completeDests exampleRelocation \<noteq> [9] \<and>
   rd_eq exampleRelocation (exampleRelocation \<lparr> cancellable := False \<rparr>) \<and>
   cancellable exampleRelocation"
  by (simp add: rd_eq_def exampleRelocation_def anonymousShardId_def)

text \<open>
  Claim C6, amended. Two relocations are equal under \<^verbatim>\<open>operator==\<close> if and only if they
  agree on \<open>keys\<close>, \<open>priority\<close>, \<open>boundaryPriority\<close>, \<open>healthPriority\<close>, \<open>reason\<close>,
  \<open>startTime\<close>, \<open>randomId\<close>, \<open>workFactor\<close>, \<open>src\<close>, \<open>completeSources\<close> and
  \<open>wantsNewServers\<close>; the fields \<open>dataMoveId\<close>, \<open>completeDests\<close> and \<open>cancellable\<close> (and
  the trace interval and the data-move handle) are not compared.
\<close>

theorem rd_eq_iff_compared_fields:
  "rd_eq a b \<longleftrightarrow>
     b = a\<lparr> dataMoveId := dataMoveId b, completeDests := completeDests b,
            cancellable := cancellable b, interval := interval b, dataMove := dataMove b \<rparr>"
proof (cases a)
  case A: (fields k1 p1 bp1 hp1 r1 s1 ri1 d1 w1 sr1 cs1 cd1 wn1 c1 i1 dm1)
  show ?thesis
  proof (cases b)
    case B: (fields k2 p2 bp2 hp2 r2 s2 ri2 d2 w2 sr2 cs2 cd2 wn2 c2 i2 dm2)
    show ?thesis unfolding A B rd_eq_def by simp blast
  qed
qed

subsection \<open>Cancelled data moves\<close>

lemma firstValidDataMove_None:
  "firstValidDataMove es = None \<longleftrightarrow> \<not> list_ex (\<lambda>e. dm_isValid (snd e)) es"
  by (induction es) auto

text \<open>
  Claim C5, as stated: when no overlapping entry holds a different valid id, the call
  inserts and schedules the clean-up. The source tests only whether an overlapping
  entry is valid: an entry that holds the same valid id also makes the call a no-op
  with a \<^verbatim>\<open>SevError\<close> event.
\<close>

theorem enqueueCancelledDataMove_counterexample:
  "intersectingRanges [(\<lparr> range_begin = [1], range_end = [5] \<rparr>, newDDDataMove 7)]
      \<lparr> range_begin = [1], range_end = [5] \<rparr>
     = [(\<lparr> range_begin = [1], range_end = [5] \<rparr>, newDDDataMove 7)] \<and>
   dm_id (newDDDataMove 7) = 7 \<and>
   enqueueCancelledDataMove
      ((newDDQueueData 3 3) \<lparr> dataMoves := [(\<lparr> range_begin = [1], range_end = [5] \<rparr>, newDDDataMove 7)] \<rparr>)
      7 \<lparr> range_begin = [1], range_end = [5] \<rparr>
     = (newDDQueueData 3 3)
         \<lparr> dataMoves := [(\<lparr> range_begin = [1], range_end = [5] \<rparr>, newDDDataMove 7)],
           traceLog := [\<lparr> severity = SevError, eventType = ''DDEnqueueCancelledDataMoveConflict'' \<rparr>] \<rparr>"
  by (simp add: enqueueCancelledDataMove_def intersectingRanges_def keyRange_intersects_def
        newDDDataMove_def dm_isValid_def uid_isValid_def newDDQueueData_def trace_def)

text \<open>
  Claim C5, amended. If some entry of \<open>dataMoves\<close> that overlaps the range holds a valid
  data-move id (equal to the given id or not), a \<^verbatim>\<open>SevError\<close> event is traced and
  nothing else changes: \<open>dataMoves\<close> is unchanged and no \<^verbatim>\<open>cleanUpDataMove\<close> is started.
  Otherwise \<^verbatim>\<open>cleanUpDataMove\<close> is started for the id and the range, and a
  \<^verbatim>\<open>DDDataMove\<close> with the id and that clean-up is inserted over the range.
\<close>

theorem enqueueCancelledDataMove_cases:
  "(list_ex (\<lambda>e. dm_isValid (snd e)) (intersectingRanges (dataMoves st) r) \<longrightarrow>
      enqueueCancelledDataMove st moveId r = trace SevError ''DDEnqueueCancelledDataMoveConflict'' st \<and>
      dataMoves (enqueueCancelledDataMove st moveId r) = dataMoves st \<and>
      started (enqueueCancelledDataMove st moveId r) = started st) \<and>
   (\<not> list_ex (\<lambda>e. dm_isValid (snd e)) (intersectingRanges (dataMoves st) r) \<longrightarrow>
      dataMoves (enqueueCancelledDataMove st moveId r) =
        kr_insert (dataMoves st) r
          \<lparr> dm_id = moveId, dm_cancel = Pending (CleanUpDataMove moveId r) \<rparr> \<and>
      started (enqueueCancelledDataMove st moveId r) = started st @ [CleanUpDataMove moveId r] \<and>
      traceLog (enqueueCancelledDataMove st moveId r) =
        traceLog st @ [\<lparr> severity = SevInfo, eventType = ''DDEnqueuedCancelledDataMove'' \<rparr>])"
proof (intro conjI impI)
  assume a: "list_ex (\<lambda>e. dm_isValid (snd e)) (intersectingRanges (dataMoves st) r)"
  then obtain e where e: "firstValidDataMove (intersectingRanges (dataMoves st) r) = Some e"
    using firstValidDataMove_None[of "intersectingRanges (dataMoves st) r"] by auto
  show c: "enqueueCancelledDataMove st moveId r = trace SevError ''DDEnqueueCancelledDataMoveConflict'' st"
    by (simp add: enqueueCancelledDataMove_def e)
  show "dataMoves (enqueueCancelledDataMove st moveId r) = dataMoves st"
    unfolding c by (simp add: trace_def)
  show "started (enqueueCancelledDataMove st moveId r) = started st"
    unfolding c by (simp add: trace_def)
next
  assume a: "\<not> list_ex (\<lambda>e. dm_isValid (snd e)) (intersectingRanges (dataMoves st) r)"
  then have n: "firstValidDataMove (intersectingRanges (dataMoves st) r) = None"
    by (simp add: firstValidDataMove_None)
  show "dataMoves (enqueueCancelledDataMove st moveId r) =
        kr_insert (dataMoves st) r
          \<lparr> dm_id = moveId, dm_cancel = Pending (CleanUpDataMove moveId r) \<rparr>"
    by (simp add: enqueueCancelledDataMove_def n trace_def Let_def)
  show "started (enqueueCancelledDataMove st moveId r) = started st @ [CleanUpDataMove moveId r]"
    by (simp add: enqueueCancelledDataMove_def n trace_def Let_def)
  show "traceLog (enqueueCancelledDataMove st moveId r) =
        traceLog st @ [\<lparr> severity = SevInfo, eventType = ''DDEnqueuedCancelledDataMove'' \<rparr>]"
    by (simp add: enqueueCancelledDataMove_def n trace_def Let_def)
qed

theorem enqueueCancelledDataMove_cases_witness:
  "dataMoves (enqueueCancelledDataMove (newDDQueueData 3 3) 7 \<lparr> range_begin = [1], range_end = [5] \<rparr>)
     = [(\<lparr> range_begin = [], range_end = [1] \<rparr>, newDDDataMove 0),
        (\<lparr> range_begin = [1], range_end = [5] \<rparr>,
           \<lparr> dm_id = 7,
             dm_cancel = Pending (CleanUpDataMove 7 \<lparr> range_begin = [1], range_end = [5] \<rparr>) \<rparr>),
        (\<lparr> range_begin = [5], range_end = [255, 255] \<rparr>, newDDDataMove 0)] \<and>
   started (enqueueCancelledDataMove (newDDQueueData 3 3) 7 \<lparr> range_begin = [1], range_end = [5] \<rparr>)
     = [CleanUpDataMove 7 \<lparr> range_begin = [1], range_end = [5] \<rparr>] \<and>
   dataMoves (enqueueCancelledDataMove
      ((newDDQueueData 3 3) \<lparr> dataMoves := [(\<lparr> range_begin = [1], range_end = [5] \<rparr>, newDDDataMove 8)] \<rparr>)
      7 \<lparr> range_begin = [2], range_end = [3] \<rparr>)
     = [(\<lparr> range_begin = [1], range_end = [5] \<rparr>, newDDDataMove 8)]"
proof -
  let ?r = "\<lparr> range_begin = [1], range_end = [5] \<rparr>"
  let ?st = "newDDQueueData 3 3"
  let ?st2 = "(newDDQueueData 3 3) \<lparr> dataMoves := [(?r, newDDDataMove 8)] \<rparr>"
  let ?r2 = "\<lparr> range_begin = [2], range_end = [3] \<rparr>"
  have dm: "dataMoves ?st = [(allKeys, newDDDataMove 0)]" "started ?st = []"
    "dataMoves ?st2 = [(?r, newDDDataMove 8)]"
    by (simp_all add: newDDQueueData_def)
  have n: "\<not> list_ex (\<lambda>e. dm_isValid (snd e)) (intersectingRanges (dataMoves ?st) ?r)"
    unfolding dm
    by (simp add: intersectingRanges_def newDDDataMove_def dm_isValid_def uid_isValid_def)
  have y: "list_ex (\<lambda>e. dm_isValid (snd e)) (intersectingRanges (dataMoves ?st2) ?r2)"
    unfolding dm
    by (simp add: intersectingRanges_def keyRange_intersects_def newDDDataMove_def dm_isValid_def
          uid_isValid_def)
  have k: "kr_insert [(allKeys, newDDDataMove 0)] ?r
             \<lparr> dm_id = 7, dm_cancel = Pending (CleanUpDataMove 7 ?r) \<rparr>
         = [(\<lparr> range_begin = [], range_end = [1] \<rparr>, newDDDataMove 0),
            (?r, \<lparr> dm_id = 7, dm_cancel = Pending (CleanUpDataMove 7 ?r) \<rparr>),
            (\<lparr> range_begin = [5], range_end = [255, 255] \<rparr>, newDDDataMove 0)]"
    by (simp add: kr_insert_def partBefore_def partAfter_def allKeys_def)
  have a: "dataMoves (enqueueCancelledDataMove ?st 7 ?r)
             = kr_insert (dataMoves ?st) ?r \<lparr> dm_id = 7, dm_cancel = Pending (CleanUpDataMove 7 ?r) \<rparr>"
    "started (enqueueCancelledDataMove ?st 7 ?r) = started ?st @ [CleanUpDataMove 7 ?r]"
    using enqueueCancelledDataMove_cases [of ?st ?r 7] n by blast+
  have b: "dataMoves (enqueueCancelledDataMove ?st2 7 ?r2) = dataMoves ?st2"
    using enqueueCancelledDataMove_cases [of ?st2 ?r2 7] y by blast
  show ?thesis unfolding a b dm k by simp
qed

subsection \<open>Inheriting from the active queued relocations\<close>

lemma set_count_iff:
  "set_count s x \<noteq> 0 \<longleftrightarrow> list_ex (rd_equiv x) s"
  "0 < set_count s x \<longleftrightarrow> list_ex (rd_equiv x) s"
  "set_count s x = 0 \<longleftrightarrow> \<not> list_ex (rd_equiv x) s"
  by (simp_all add: set_count_def)

lemma list_ex_filter: "list_ex P (filter Q xs) = list_ex (\<lambda>e. Q e \<and> P e) xs"
  by (induction xs) auto

lemma set_set_insert: "set (set_insert x c) \<subseteq> insert x (set c)"
  by (induction c) auto

lemma rd_greater_trans: "rd_greater a b \<Longrightarrow> rd_greater b c \<Longrightarrow> rd_greater a c"
  by (auto simp: rd_greater_def split: if_splits)

lemma set_insert_sorted:
  "sorted_wrt rd_greater s \<Longrightarrow> sorted_wrt rd_greater (set_insert x s)"
proof (induction s)
  case Nil
  then show ?case by simp
next
  case (Cons y ys)
  have "\<forall>z\<in>set (set_insert x ys). z = x \<or> z \<in> set ys"
    using set_set_insert[of x ys] by auto
  then show ?case using Cons by (auto intro: rd_greater_trans)
qed

lemma queue_at_props:
  assumes "queue_at q k = (s, q')"
  shows "s = queueOf q k \<and> queueOf q' = queueOf q"
proof
  show "s = queueOf q k" using assms by (cases "q k") (auto simp: queue_at_def queueOf_def)
  show "queueOf q' = queueOf q"
  proof
    fix x show "queueOf q' x = queueOf q x"
      using assms by (cases "q k") (auto simp: queue_at_def queueOf_def)
  qed
qed

lemma inheritIntent_fields:
  "wantsNewServers (inheritIntent hh hb rrs rd) = (wantsNewServers rd \<or> wantsNewServers rrs)"
  "startTime (inheritIntent hh hb rrs rd) = min (startTime rd) (startTime rrs)"
  "healthPriority (inheritIntent hh hb rrs rd) =
     (if hh then healthPriority rd else max (healthPriority rd) (healthPriority rrs))"
  "boundaryPriority (inheritIntent hh hb rrs rd) =
     (if hb then boundaryPriority rd else max (boundaryPriority rd) (boundaryPriority rrs))"
  "priority (inheritIntent hh hb rrs rd) =
     max (priority rd) (max (boundaryPriority (inheritIntent hh hb rrs rd))
                            (healthPriority (inheritIntent hh hb rrs rd)))"
  by (cases hh; cases hb; simp add: inheritIntent_def Let_def)+

lemma finishRelocation_cases:
  "finishRelocation knobs p hp st = Inl e \<Longrightarrow>
     e = internal_error \<and> countsAsUnhealthy knobs hp \<and> unhealthyRelocations st < 1"
  by (auto simp: finishRelocation_def Let_def split: if_splits)

lemma unhealthy_trace: "unhealthyRelocations (trace sev n st) = unhealthyRelocations st"
  by (simp add: trace_def)

lemma findActive_props:
  assumes "findActive st rrs = (ff, fr, st1)"
  shows "(ff \<or> fr) = isActive st rrs" "unhealthyRelocations st1 = unhealthyRelocations st"
proof -
  obtain fq q1 where at: "queue_at (queue st) (hd (src rrs)) = (fq, q1)"
    by (cases "queue_at (queue st) (hd (src rrs))")
  note qp = queue_at_props[OF at]
  show "(ff \<or> fr) = isActive st rrs"
    using assms at qp
    by (auto simp: findActive_def Let_def isActive_def set_count_iff split: if_splits)
  show "unhealthyRelocations st1 = unhealthyRelocations st"
    using assms at by (auto simp: findActive_def Let_def split: if_splits)
qed

lemma unhealthy_eraseContained:
  "unhealthyRelocations (eraseContained rd rrs ff fr st) = unhealthyRelocations st"
  by (simp add: eraseContained_def)

lemma visit_active:
  assumes "isActive st rrs"
  shows "case queueRelocation_visit knobs hh hb rrs (rd, servers, st) of
           Inl e \<Rightarrow> e = internal_error \<and> countsAsUnhealthy knobs (healthPriority rrs) \<and>
                    unhealthyRelocations st < 1
         | Inr res \<Rightarrow> fst res = inheritIntent hh hb rrs rd"
proof -
  obtain ff fr st1 where fa: "findActive st rrs = (ff, fr, st1)"
    by (cases "findActive st rrs") auto
  note p = findActive_props[OF fa]
  have found: "ff \<or> fr" using p(1) assms by simp
  define st2 where "st2 = trace SevVerbose ''QueuedRelocationsChanged''
     ((eraseContained (inheritIntent hh hb rrs rd) rrs ff fr st1)
        \<lparr> queuedRelocations :=
            queuedRelocations (eraseContained (inheritIntent hh hb rrs rd) rrs ff fr st1) - 1 \<rparr>)"
  have u: "unhealthyRelocations st2 = unhealthyRelocations st"
    unfolding st2_def by (simp add: unhealthy_trace unhealthy_eraseContained p(2))
  have v: "queueRelocation_visit knobs hh hb rrs (rd, servers, st) =
             (case finishRelocation knobs (priority rrs) (healthPriority rrs) st2 of
                Inl e \<Rightarrow> Inl e
              | Inr st3 \<Rightarrow> Inr (inheritIntent hh hb rrs rd, uidset_insert_all (src rrs) servers, st3))"
    using found unfolding queueRelocation_visit_def st2_def by (simp add: fa Let_def)
  show ?thesis
  proof (cases "finishRelocation knobs (priority rrs) (healthPriority rrs) st2")
    case (Inl e)
    from finishRelocation_cases[OF Inl] show ?thesis using v Inl u by simp
  next
    case (Inr st3)
    then show ?thesis using v by simp
  qed
qed


lemma rd_equiv_iff:
  "rd_equiv a b \<longleftrightarrow> priority a = priority b \<and> startTime a = startTime b \<and> randomId a = randomId b"
  by (auto simp: rd_equiv_def rd_greater_def)

lemma list_ex_set_erase:
  "list_ex (rd_equiv e) (set_erase q x) = (list_ex (rd_equiv e) q \<and> \<not> rd_equiv x e)"
  by (auto simp: set_erase_def list_ex_iff rd_equiv_iff)

lemma queueOf_upd: "queueOf (q(k \<mapsto> v)) s = (if s = k then v else queueOf q s)"
  by (simp add: queueOf_def)

lemma set_erase_idem: "set_erase (set_erase q x) x = set_erase q x"
  by (simp add: set_erase_def)

lemma queueOf_eraseFromQueues:
  "queueOf (eraseFromQueues rrs ss q) s
     = (if s \<in> set ss then set_erase (queueOf q s) rrs else queueOf q s)"
proof (induction ss arbitrary: q)
  case Nil
  then show ?case by simp
next
  case (Cons x ss)
  obtain qs q' where at: "queue_at q x = (qs, q')" by (cases "queue_at q x")
  note qp = queue_at_props[OF at]
  have "queueOf (eraseFromQueues rrs (x # ss) q) s
          = queueOf (eraseFromQueues rrs ss (q'(x \<mapsto> set_erase qs rrs))) s"
    using at by simp
  also have "\<dots> = (if s \<in> set ss then set_erase (queueOf (q'(x \<mapsto> set_erase qs rrs)) s) rrs
                    else queueOf (q'(x \<mapsto> set_erase qs rrs)) s)"
    by (rule Cons.IH)
  finally show ?case using qp by (auto simp: queueOf_upd set_erase_idem)
qed

lemma finishRelocation_queues:
  assumes "finishRelocation knobs p hp st = Inr st'"
  shows "fetchingSourcesQueue st' = fetchingSourcesQueue st" "queue st' = queue st"
    "unhealthyRelocations st' = unhealthyRelocations st - (if countsAsUnhealthy knobs hp then 1 else 0)"
  using assms by (auto simp: finishRelocation_def Let_def split: if_splits)

lemma findActive_queues:
  assumes "findActive st rrs = (ff, fr, st1)"
  shows "fetchingSourcesQueue st1 = fetchingSourcesQueue st" "queueOf (queue st1) = queueOf (queue st)"
    "ff = list_ex (rd_equiv rrs) (fetchingSourcesQueue st)"
proof -
  obtain fq q1 where at: "queue_at (queue st) (hd (src rrs)) = (fq, q1)"
    by (cases "queue_at (queue st) (hd (src rrs))")
  note qp = queue_at_props[OF at]
  show "fetchingSourcesQueue st1 = fetchingSourcesQueue st"
    using assms at by (auto simp: findActive_def Let_def split: if_splits)
  show "queueOf (queue st1) = queueOf (queue st)"
    using assms at qp by (auto simp: findActive_def Let_def split: if_splits)
  show "ff = list_ex (rd_equiv rrs) (fetchingSourcesQueue st)"
    using assms at by (auto simp: findActive_def Let_def set_count_iff split: if_splits)
qed

text \<open>The effect of one pass on the new relocation and on the two kinds of queue.\<close>

lemma visit_effect:
  assumes "queueRelocation_visit knobs hh hb rrs (rd, sv, st) = Inr (rd1, sv1, st1)"
  shows "rd1 = (if isActive st rrs then inheritIntent hh hb rrs rd else rd)"
    "fetchingSourcesQueue st1 = fetchingSourcesQueue st \<or>
       (isActive st rrs \<and> fetchingSourcesQueue st1 = set_erase (fetchingSourcesQueue st) rrs)"
    "queueOf (queue st1) s = queueOf (queue st) s \<or>
       (isActive st rrs \<and> queueOf (queue st1) s = set_erase (queueOf (queue st) s) rrs)"
    "unhealthyRelocations st1 = unhealthyRelocations st -
       (if isActive st rrs \<and> countsAsUnhealthy knobs (healthPriority rrs) then 1 else 0)"
proof -
  obtain ff fr st0 where fa: "findActive st rrs = (ff, fr, st0)"
    by (cases "findActive st rrs") auto
  note p = findActive_props[OF fa] and q = findActive_queues[OF fa]
  define rdx where "rdx = (if ff \<or> fr then inheritIntent hh hb rrs rd else rd)"
  define st2 where "st2 = eraseContained rdx rrs ff fr st0"
  have f2: "fetchingSourcesQueue st2 = fetchingSourcesQueue st \<or>
       ((ff \<or> fr) \<and> fetchingSourcesQueue st2 = set_erase (fetchingSourcesQueue st) rrs)"
    unfolding st2_def by (auto simp: eraseContained_def q(1))
  have q2: "queueOf (queue st2) s = queueOf (queue st) s \<or>
       ((ff \<or> fr) \<and> queueOf (queue st2) s = set_erase (queueOf (queue st) s) rrs)"
    unfolding st2_def by (auto simp: eraseContained_def q(2) queueOf_eraseFromQueues)
  have u2: "unhealthyRelocations st2 = unhealthyRelocations st"
    unfolding st2_def by (simp add: unhealthy_eraseContained p(2))
  show "rd1 = (if isActive st rrs then inheritIntent hh hb rrs rd else rd)"
    using assms fa p(1) unfolding queueRelocation_visit_def
    by (auto simp: Let_def split: if_splits sum.splits)
  show "fetchingSourcesQueue st1 = fetchingSourcesQueue st \<or>
       (isActive st rrs \<and> fetchingSourcesQueue st1 = set_erase (fetchingSourcesQueue st) rrs)"
  proof (cases "ff \<or> fr")
    case True
    with assms fa obtain st3 where
      "finishRelocation knobs (priority rrs) (healthPriority rrs)
         (trace SevVerbose ''QueuedRelocationsChanged''
            (st2\<lparr> queuedRelocations := queuedRelocations st2 - 1 \<rparr>)) = Inr st3" "st1 = st3"
      unfolding queueRelocation_visit_def st2_def rdx_def
      by (auto simp: Let_def split: if_splits sum.splits)
    from finishRelocation_queues(1)[OF this(1)] this(2) f2 p(1) show ?thesis
      by (auto simp: trace_def)
  next
    case False
    with assms fa have "st1 = st2" unfolding queueRelocation_visit_def st2_def rdx_def
      by (auto simp: Let_def split: if_splits sum.splits)
    then show ?thesis using f2 p(1) by auto
  qed
  show "queueOf (queue st1) s = queueOf (queue st) s \<or>
       (isActive st rrs \<and> queueOf (queue st1) s = set_erase (queueOf (queue st) s) rrs)"
  proof (cases "ff \<or> fr")
    case True
    with assms fa obtain st3 where
      "finishRelocation knobs (priority rrs) (healthPriority rrs)
         (trace SevVerbose ''QueuedRelocationsChanged''
            (st2\<lparr> queuedRelocations := queuedRelocations st2 - 1 \<rparr>)) = Inr st3" "st1 = st3"
      unfolding queueRelocation_visit_def st2_def rdx_def
      by (auto simp: Let_def split: if_splits sum.splits)
    from finishRelocation_queues(2)[OF this(1)] this(2) q2 p(1) show ?thesis
      by (auto simp: trace_def)
  next
    case False
    with assms fa have "st1 = st2" unfolding queueRelocation_visit_def st2_def rdx_def
      by (auto simp: Let_def split: if_splits sum.splits)
    then show ?thesis using q2 p(1) by auto
  qed
  show "unhealthyRelocations st1 = unhealthyRelocations st -
       (if isActive st rrs \<and> countsAsUnhealthy knobs (healthPriority rrs) then 1 else 0)"
  proof (cases "ff \<or> fr")
    case True
    with assms fa obtain st3 where
      "finishRelocation knobs (priority rrs) (healthPriority rrs)
         (trace SevVerbose ''QueuedRelocationsChanged''
            (st2\<lparr> queuedRelocations := queuedRelocations st2 - 1 \<rparr>)) = Inr st3" "st1 = st3"
      unfolding queueRelocation_visit_def st2_def rdx_def
      by (auto simp: Let_def split: if_splits sum.splits)
    from finishRelocation_queues(3)[OF this(1)] this(2) u2 p(1) True show ?thesis
      by (auto simp: trace_def)
  next
    case False
    with assms fa have "st1 = st2" unfolding queueRelocation_visit_def st2_def rdx_def
      by (auto simp: Let_def split: if_splits sum.splits)
    then show ?thesis using u2 p(1) False by auto
  qed
qed

lemma visit_isActive:
  assumes "queueRelocation_visit knobs hh hb rrs (rd, sv, st) = Inr (rd1, sv1, st1)"
  shows "isActive st1 e \<Longrightarrow> isActive st e"
    "isActive st e \<Longrightarrow> \<not> isActive st1 e \<Longrightarrow> isActive st rrs \<and> rd_equiv rrs e"
    "\<not> isActive st rrs \<Longrightarrow> isActive st1 e = isActive st e"
proof -
  note v = visit_effect[OF assms]
  have a: "list_ex (rd_equiv e) (fetchingSourcesQueue st1) \<Longrightarrow>
           list_ex (rd_equiv e) (fetchingSourcesQueue st)"
    using v(2) by (auto simp: list_ex_set_erase)
  have b: "\<And>s. list_ex (rd_equiv e) (queueOf (queue st1) s) \<Longrightarrow>
           list_ex (rd_equiv e) (queueOf (queue st) s)"
    using v(3) by (metis list_ex_set_erase)
  have a': "list_ex (rd_equiv e) (fetchingSourcesQueue st) \<Longrightarrow>
            \<not> list_ex (rd_equiv e) (fetchingSourcesQueue st1) \<Longrightarrow> isActive st rrs \<and> rd_equiv rrs e"
    using v(2) by (auto simp: list_ex_set_erase)
  have b': "\<And>s. list_ex (rd_equiv e) (queueOf (queue st) s) \<Longrightarrow>
            \<not> list_ex (rd_equiv e) (queueOf (queue st1) s) \<Longrightarrow> isActive st rrs \<and> rd_equiv rrs e"
    using v(3) by (metis list_ex_set_erase)
  show "isActive st1 e \<Longrightarrow> isActive st e" using a b unfolding isActive_def by blast
  show "isActive st e \<Longrightarrow> \<not> isActive st1 e \<Longrightarrow> isActive st rrs \<and> rd_equiv rrs e"
    using a' b' unfolding isActive_def by blast
  show "\<not> isActive st rrs \<Longrightarrow> isActive st1 e = isActive st e"
    using v(2) v(3) unfolding isActive_def by metis
qed


lemma Max_insert_max:
  "finite A \<Longrightarrow> Max (insert (max (x::int) y) A) = Max (insert x (insert y A))"
  by (cases "A = {}") (simp_all add: max.assoc)

lemma Min_insert_min:
  "finite A \<Longrightarrow> Min (insert (min (x::real) y) A) = Min (insert x (insert y A))"
  by (cases "A = {}") (simp_all add: min.assoc)

lemma inherited_sel:
  "wantsNewServers (inherited hh hb rd acts) = (wantsNewServers rd \<or> list_ex wantsNewServers acts)"
  "startTime (inherited hh hb rd acts) = Min (insert (startTime rd) (startTime ` set acts))"
  "healthPriority (inherited hh hb rd acts) =
     (if hh then healthPriority rd
      else Max (insert (healthPriority rd) (healthPriority ` set acts)))"
  "boundaryPriority (inherited hh hb rd acts) =
     (if hb then boundaryPriority rd
      else Max (insert (boundaryPriority rd) (boundaryPriority ` set acts)))"
  "priority (inherited hh hb rd acts) =
     (if acts = [] then priority rd
      else max (priority rd) (max (boundaryPriority (inherited hh hb rd acts))
                                  (healthPriority (inherited hh hb rd acts))))"
  by (simp_all add: inherited_def Let_def)

lemma inherited_other:
  "keys (inherited hh hb rd acts) = keys rd"
  "reason (inherited hh hb rd acts) = reason rd"
  "randomId (inherited hh hb rd acts) = randomId rd"
  "dataMoveId (inherited hh hb rd acts) = dataMoveId rd"
  "workFactor (inherited hh hb rd acts) = workFactor rd"
  "src (inherited hh hb rd acts) = src rd"
  "completeSources (inherited hh hb rd acts) = completeSources rd"
  "completeDests (inherited hh hb rd acts) = completeDests rd"
  "cancellable (inherited hh hb rd acts) = cancellable rd"
  "interval (inherited hh hb rd acts) = interval rd"
  "dataMove (inherited hh hb rd acts) = dataMove rd"
  by (simp_all add: inherited_def Let_def)

lemma inheritIntent_other:
  "keys (inheritIntent hh hb a rd) = keys rd"
  "reason (inheritIntent hh hb a rd) = reason rd"
  "randomId (inheritIntent hh hb a rd) = randomId rd"
  "dataMoveId (inheritIntent hh hb a rd) = dataMoveId rd"
  "workFactor (inheritIntent hh hb a rd) = workFactor rd"
  "src (inheritIntent hh hb a rd) = src rd"
  "completeSources (inheritIntent hh hb a rd) = completeSources rd"
  "completeDests (inheritIntent hh hb a rd) = completeDests rd"
  "cancellable (inheritIntent hh hb a rd) = cancellable rd"
  "interval (inheritIntent hh hb a rd) = interval rd"
  "dataMove (inheritIntent hh hb a rd) = dataMove rd"
  by (cases hh; cases hb; simp add: inheritIntent_def Let_def)+

lemma inherited_Nil: "inherited hh hb rd [] = rd"
  by (rule RelocateData.equality) (simp_all add: inherited_sel inherited_other)

lemma inherited_Cons:
  "inherited hh hb (inheritIntent hh hb a rd) acts = inherited hh hb rd (a # acts)"
proof -
  let ?S = "healthPriority ` set acts" and ?B = "boundaryPriority ` set acts"
  let ?l = "inherited hh hb (inheritIntent hh hb a rd) acts"
  let ?r = "inherited hh hb rd (a # acts)"
  have h: "Max (insert (max (healthPriority rd) (healthPriority a)) ?S)
            = Max (insert (healthPriority rd) (insert (healthPriority a) ?S))"
    by (rule Max_insert_max) simp
  have b: "Max (insert (max (boundaryPriority rd) (boundaryPriority a)) ?B)
            = Max (insert (boundaryPriority rd) (insert (boundaryPriority a) ?B))"
    by (rule Max_insert_max) simp
  have t: "Min (insert (min (startTime rd) (startTime a)) (startTime ` set acts))
            = Min (insert (startTime rd) (insert (startTime a) (startTime ` set acts)))"
    by (rule Min_insert_min) simp
  have eh: "healthPriority ?l = healthPriority ?r"
    using h by (simp add: inherited_sel(3) inheritIntent_fields(3))
  have eb: "boundaryPriority ?l = boundaryPriority ?r"
    using b by (simp add: inherited_sel(4) inheritIntent_fields(4))
  have hge: "healthPriority (inheritIntent hh hb a rd) \<le> healthPriority ?l"
    by (simp add: inherited_sel(3))
  have bge: "boundaryPriority (inheritIntent hh hb a rd) \<le> boundaryPriority ?l"
    by (simp add: inherited_sel(4))
  have hnil: "acts = [] \<Longrightarrow> healthPriority ?l = healthPriority (inheritIntent hh hb a rd)"
    by (simp add: inherited_sel(3))
  have bnil: "acts = [] \<Longrightarrow> boundaryPriority ?l = boundaryPriority (inheritIntent hh hb a rd)"
    by (simp add: inherited_sel(4))
  have pl: "priority ?l = max (priority rd) (max (boundaryPriority ?l) (healthPriority ?l))"
  proof (cases "acts = []")
    case True
    have "priority ?l = priority (inheritIntent hh hb a rd)"
      using True by (simp add: inherited_sel(5))
    also have "\<dots> = max (priority rd) (max (boundaryPriority (inheritIntent hh hb a rd))
                            (healthPriority (inheritIntent hh hb a rd)))"
      by (rule inheritIntent_fields(5))
    finally show ?thesis using hnil[OF True] bnil[OF True] by simp
  next
    case False
    have "priority ?l = max (priority (inheritIntent hh hb a rd))
                            (max (boundaryPriority ?l) (healthPriority ?l))"
      using False by (simp only: inherited_sel(5) if_False)
    also have "priority (inheritIntent hh hb a rd)
                 = max (priority rd) (max (boundaryPriority (inheritIntent hh hb a rd))
                            (healthPriority (inheritIntent hh hb a rd)))"
      by (rule inheritIntent_fields(5))
    finally show ?thesis using hge bge by linarith
  qed
  have pr: "priority ?r = max (priority rd) (max (boundaryPriority ?r) (healthPriority ?r))"
    by (simp only: inherited_sel(5)[of hh hb rd "a # acts"] list.distinct if_False)
  have ep: "priority ?l = priority ?r" unfolding pl pr eh eb ..
  have ew: "wantsNewServers ?l = wantsNewServers ?r"
    by (auto simp: inherited_sel(1) inheritIntent_fields(1))
  have et: "startTime ?l = startTime ?r"
    using t by (simp add: inherited_sel(2) inheritIntent_fields(2))
  show ?thesis
    by (rule RelocateData.equality)
       (simp_all only: ep ew et eh eb inherited_other inheritIntent_other, simp)
qed

lemma activeDistinct_mono:
  "(\<And>e. isActive st1 e \<Longrightarrow> isActive st e) \<Longrightarrow> activeDistinct st es \<Longrightarrow> activeDistinct st1 es"
  by (induction es) auto

lemma length_filter_mono:
  "(\<And>x. P x \<Longrightarrow> Q x) \<Longrightarrow> length (filter P xs) \<le> length (filter Q xs)"
  by (induction xs) auto

lemma visit_error:
  assumes "queueRelocation_visit knobs hh hb rrs (rd, sv, st) = Inl e"
  shows "e = internal_error \<and> isActive st rrs \<and> countsAsUnhealthy knobs (healthPriority rrs) \<and>
         unhealthyRelocations st < 1"
proof (cases "isActive st rrs")
  case True
  from visit_active[OF True, of knobs hh hb rd sv] assms True show ?thesis by simp
next
  case False
  obtain ff fr st0 where fa: "findActive st rrs = (ff, fr, st0)"
    by (cases "findActive st rrs") auto
  from findActive_props(1)[OF fa] False have "\<not> (ff \<or> fr)" by simp
  then have "\<exists>r. queueRelocation_visit knobs hh hb rrs (rd, sv, st) = Inr r"
    unfolding queueRelocation_visit_def using fa by (simp add: Let_def)
  with assms show ?thesis by simp
qed

lemma queueRelocation_loop_acts:
  assumes "queueRelocation_loop knobs hh hb es (rd, sv, st) = Inr (rd', sv', st')"
  shows "\<exists>acts. (\<forall>a\<in>set acts. a \<in> set (map snd es) \<and> isActive st a) \<and>
           (\<forall>e\<in>set (map snd es). isActive st e \<longrightarrow> (\<exists>a\<in>set acts. rd_equiv a e)) \<and>
           (activeDistinct st (map snd es) \<longrightarrow> acts = filter (isActive st) (map snd es)) \<and>
           rd' = inherited hh hb rd acts"
  using assms
proof (induction es arbitrary: rd sv st)
  case Nil
  then show ?case by (intro exI[of _ "[]"]) (simp add: inherited_Nil)
next
  case (Cons r es)
  from Cons.prems obtain rd1 sv1 st1 where
    v: "queueRelocation_visit knobs hh hb (snd r) (rd, sv, st) = Inr (rd1, sv1, st1)"
    and l: "queueRelocation_loop knobs hh hb es (rd1, sv1, st1) = Inr (rd', sv', st')"
    by (auto split: sum.splits)
  note eff = visit_effect(1)[OF v] and act = visit_isActive[OF v]
  from Cons.IH[OF l] obtain acts1 where a1:
    "\<forall>a\<in>set acts1. a \<in> set (map snd es) \<and> isActive st1 a"
    "\<forall>e\<in>set (map snd es). isActive st1 e \<longrightarrow> (\<exists>a\<in>set acts1. rd_equiv a e)"
    "activeDistinct st1 (map snd es) \<longrightarrow> acts1 = filter (isActive st1) (map snd es)"
    "rd' = inherited hh hb rd1 acts1"
    by blast
  define acts where "acts = (if isActive st (snd r) then snd r # acts1 else acts1)"
  have p1: "\<forall>a\<in>set acts. a \<in> set (map snd (r # es)) \<and> isActive st a"
    using a1(1) act(1) unfolding acts_def by auto
  have p2: "\<forall>e\<in>set (map snd (r # es)). isActive st e \<longrightarrow> (\<exists>a\<in>set acts. rd_equiv a e)"
  proof (intro ballI impI)
    fix e assume e: "e \<in> set (map snd (r # es))" and ae: "isActive st e"
    show "\<exists>a\<in>set acts. rd_equiv a e"
    proof (cases "e = snd r")
      case True
      then show ?thesis using ae unfolding acts_def by (auto simp: rd_equiv_iff)
    next
      case False
      then have ein: "e \<in> set (map snd es)" using e by auto
      show ?thesis
      proof (cases "isActive st1 e")
        case True
        with a1(2) ein obtain a where "a \<in> set acts1" "rd_equiv a e" by blast
        then show ?thesis unfolding acts_def by auto
      next
        case False
        from act(2)[OF ae False] show ?thesis unfolding acts_def by auto
      qed
    qed
  qed
  have p3: "activeDistinct st (map snd (r # es)) \<longrightarrow> acts = filter (isActive st) (map snd (r # es))"
  proof
    assume d: "activeDistinct st (map snd (r # es))"
    then have d1: "isActive st (snd r) \<longrightarrow> \<not> list_ex (rd_equiv (snd r)) (map snd es)"
      and d2: "activeDistinct st (map snd es)" by simp_all
    have same: "\<forall>e\<in>set (map snd es). isActive st1 e = isActive st e"
    proof
      fix e assume ein: "e \<in> set (map snd es)"
      show "isActive st1 e = isActive st e"
      proof (cases "isActive st (snd r)")
        case False
        from act(3)[OF False] show ?thesis .
      next
        case True
        with d1 ein have ne: "\<not> rd_equiv (snd r) e" by (auto simp: list_ex_iff)
        show ?thesis using act(1)[of e] act(2)[of e] ne by blast
      qed
    qed
    have "activeDistinct st1 (map snd es)" using d2 act(1) by (rule activeDistinct_mono[rotated])
    with a1(3) have "acts1 = filter (isActive st1) (map snd es)" by simp
    also have "\<dots> = filter (isActive st) (map snd es)"
      using same by (intro filter_cong) auto
    finally show "acts = filter (isActive st) (map snd (r # es))" unfolding acts_def by simp
  qed
  have p4: "rd' = inherited hh hb rd acts"
    unfolding acts_def a1(4) eff by (simp add: inherited_Cons)
  from p1 p2 p3 p4 show ?case by blast
qed

lemma queueRelocation_loop_error:
  assumes "queueRelocation_loop knobs hh hb es (rd, sv, st) = Inl e"
  shows "e = internal_error \<and>
         unhealthyRelocations st < int (length (filter (activeUnhealthy knobs st) (map snd es)))"
  using assms
proof (induction es arbitrary: rd sv st)
  case Nil
  then show ?case by simp
next
  case (Cons r es)
  show ?case
  proof (cases "queueRelocation_visit knobs hh hb (snd r) (rd, sv, st)")
    case (Inl e')
    with Cons.prems have "e' = e" by simp
    with visit_error[OF Inl] show ?thesis by (simp add: activeUnhealthy_def)
  next
    case (Inr acc)
    obtain rd1 sv1 st1 where acc: "acc = (rd1, sv1, st1)" by (cases acc) auto
    note v = Inr[unfolded acc]
    from Cons.prems v have l: "queueRelocation_loop knobs hh hb es (rd1, sv1, st1) = Inl e" by simp
    from Cons.IH[OF l] have ih: "e = internal_error"
      "unhealthyRelocations st1 < int (length (filter (activeUnhealthy knobs st1) (map snd es)))"
      by simp_all
    have "length (filter (activeUnhealthy knobs st1) (map snd es))
            \<le> length (filter (activeUnhealthy knobs st) (map snd es))"
      by (rule length_filter_mono) (auto simp: activeUnhealthy_def dest: visit_isActive(1)[OF v])
    have le: "int (length (filter (activeUnhealthy knobs st1) (map snd es)))
            \<le> int (length (filter (activeUnhealthy knobs st) (map snd es)))"
      using \<open>length (filter (activeUnhealthy knobs st1) (map snd es))
            \<le> length (filter (activeUnhealthy knobs st) (map snd es))\<close> by simp
    have u: "unhealthyRelocations st1 = unhealthyRelocations st -
       (if activeUnhealthy knobs st (snd r) then 1 else 0)"
      using visit_effect(4)[OF v] by (simp add: activeUnhealthy_def)
    have "int (length (filter (activeUnhealthy knobs st) (map snd (r # es))))
           = (if activeUnhealthy knobs st (snd r) then 1 else 0)
             + int (length (filter (activeUnhealthy knobs st) (map snd es)))"
      by simp
    with ih(2) le u have "unhealthyRelocations st
           < int (length (filter (activeUnhealthy knobs st) (map snd (r # es))))"
      by (simp split: if_splits)
    then show ?thesis using ih(1) by simp
  qed
qed

text \<open>
  Claim C3. \<^verbatim>\<open>queueRelocation\<close> builds the new relocation \<open>rd\<close> from the request and
  visits, in its first loop, every entry of \<open>queueMap\<close> that intersects \<open>rd.keys\<close>. When
  the loop has ended, \<open>rd\<close> is the relocation built from the request with the intent of
  the entries found active merged in: \<open>wantsNewServers\<close> or-ed with theirs, the earliest
  of the start times, the health priority (boundary priority) raised to the largest of
  theirs when the priority of the request is not a health (boundary) priority, and, if
  an entry was found active, \<open>priority\<close> the maximum of its priority and the two others;
  no other field of \<open>rd\<close> changes. The entries found active are intersecting entries
  that are active when \<^verbatim>\<open>queueRelocation\<close> is called (in \<open>fetchingSourcesQueue\<close>, or in
  the queue of their first source server); each active intersecting entry is one of
  them or shares its place in the order of the queues with one of them; and they are
  exactly the active intersecting entries when the active entries are different
  relocations. The loop ends in an error only when the assertion of
  \<^verbatim>\<open>finishRelocation\<close> fails, the count of unhealthy relocations being smaller than the
  number of active unhealthy entries.
\<close>

theorem queueRelocation_inherits_from_active:
  "case queueRelocation_merge knobs now rid rs servers st of
     Inl e \<Rightarrow>
       e = internal_error \<and>
       unhealthyRelocations st
         < int (length (filter (activeUnhealthy knobs st) (intersectingEntries st (rs_keys rs))))
   | Inr res \<Rightarrow>
       (\<exists>acts.
          (\<forall>a\<in>set acts. a \<in> set (intersectingEntries st (rs_keys rs)) \<and> isActive st a) \<and>
          (\<forall>rrs\<in>set (intersectingEntries st (rs_keys rs)).
              isActive st rrs \<longrightarrow> (\<exists>a\<in>set acts. rd_equiv a rrs)) \<and>
          (activeDistinct st (intersectingEntries st (rs_keys rs)) \<longrightarrow>
              acts = filter (isActive st) (intersectingEntries st (rs_keys rs))) \<and>
          fst res = inherited (isHealthPriority knobs (rs_priority rs))
                              (isBoundaryPriority knobs (rs_priority rs))
                              (newRelocateData knobs now rid rs) acts)"
proof -
  define rd0 where "rd0 = newRelocateData knobs now rid rs"
  have k: "keys rd0 = rs_keys rs" "priority rd0 = rs_priority rs"
    by (simp_all add: rd0_def newRelocateData_def)
  have m: "queueRelocation_merge knobs now rid rs servers st =
        queueRelocation_loop knobs (isHealthPriority knobs (rs_priority rs))
          (isBoundaryPriority knobs (rs_priority rs))
          (intersectingRanges (queueMap st) (rs_keys rs)) (rd0, servers, st)"
    unfolding queueRelocation_merge_def Let_def rd0_def[symmetric] k ..
  show ?thesis
  proof (cases "queueRelocation_merge knobs now rid rs servers st")
    case (Inl e)
    from queueRelocation_loop_error[OF Inl[unfolded m]] show ?thesis
      using Inl by (simp add: intersectingEntries_def)
  next
    case (Inr res)
    obtain rd' sv' st' where res: "res = (rd', sv', st')" by (cases res) auto
    from queueRelocation_loop_acts[OF Inr[unfolded m res]] show ?thesis
      using Inr res by (simp add: intersectingEntries_def rd0_def)
  qed
qed


theorem queueRelocation_inherits_from_active_witness:
  "\<exists>res. queueRelocation_merge exampleKnobs 10 83 exampleMergeRequest [] mergeQueue = Inr res \<and>
      wantsNewServers (fst res) \<and> startTime (fst res) = 5 \<and> healthPriority (fst res) = 800 \<and>
      boundaryPriority (fst res) = 340 \<and> priority (fst res) = 800"
proof -
  have rs: "rs_keys exampleMergeRequest = \<lparr> range_begin = [1], range_end = [9] \<rparr>"
    "rs_priority exampleMergeRequest = 340"
    by (simp_all add: exampleMergeRequest_def newRelocateShard_def exampleKnobs_def)
  have flags: "\<not> isHealthPriority exampleKnobs 340" "isBoundaryPriority exampleKnobs 340"
    by (simp_all add: isHealthPriority_def isBoundaryPriority_def exampleKnobs_def)
  have ents: "intersectingEntries mergeQueue \<lparr> range_begin = [1], range_end = [9] \<rparr>
                = [exampleFetching, exampleQueued]"
    by (simp add: intersectingEntries_def intersectingRanges_def mergeQueue_def
          keyRange_intersects_def)
  have a: "isActive mergeQueue exampleFetching" "isActive mergeQueue exampleQueued"
    by (simp_all add: isActive_def mergeQueue_def queueOf_def rd_equiv_def rd_greater_def
          exampleQueued_def)
  have ne: "\<not> rd_equiv exampleFetching exampleQueued"
    by (simp add: rd_equiv_def rd_greater_def exampleFetching_def exampleQueued_def)
  have cu: "countsAsUnhealthy exampleKnobs (healthPriority exampleFetching)"
    "countsAsUnhealthy exampleKnobs (healthPriority exampleQueued)"
    by (simp_all add: countsAsUnhealthy_def exampleKnobs_def exampleFetching_def
          exampleQueued_def)
  have u: "unhealthyRelocations mergeQueue = 2" by (simp add: mergeQueue_def)
  have d: "activeDistinct mergeQueue [exampleFetching, exampleQueued]"
    using ne by simp
  have n: "length (filter (activeUnhealthy exampleKnobs mergeQueue)
             [exampleFetching, exampleQueued]) = 2"
    using a cu by (simp add: activeUnhealthy_def)
  have f: "filter (isActive mergeQueue) [exampleFetching, exampleQueued]
            = [exampleFetching, exampleQueued]"
    using a by simp
  have rd0: "wantsNewServers (newRelocateData exampleKnobs 10 83 exampleMergeRequest) = False"
    "startTime (newRelocateData exampleKnobs 10 83 exampleMergeRequest) = 10"
    "healthPriority (newRelocateData exampleKnobs 10 83 exampleMergeRequest) = - 1"
    "boundaryPriority (newRelocateData exampleKnobs 10 83 exampleMergeRequest) = 340"
    "priority (newRelocateData exampleKnobs 10 83 exampleMergeRequest) = 340"
    by (simp_all add: newRelocateData_def exampleMergeRequest_def newRelocateShard_def
          exampleKnobs_def isBoundaryPriority_def isHealthPriority_def
          isDataMovementForMountainChopper_def isDataMovementForValleyFiller_def)
  have e: "wantsNewServers exampleFetching" "startTime exampleFetching = 5"
    "healthPriority exampleFetching = 700"
    "\<not> wantsNewServers exampleQueued" "startTime exampleQueued = 7"
    "healthPriority exampleQueued = 800"
    by (simp_all add: exampleFetching_def exampleQueued_def exampleRelocation_def)
  note T = queueRelocation_inherits_from_active
             [where knobs = exampleKnobs and now = 10 and rid = 83 and rs = exampleMergeRequest
                and servers = "[]" and st = mergeQueue, unfolded rs ents]
  show ?thesis
  proof (cases "queueRelocation_merge exampleKnobs 10 83 exampleMergeRequest [] mergeQueue")
    case (Inl err)
    with T n u show ?thesis by simp
  next
    case (Inr res)
    with T d f flags have
      "fst res = inherited False True (newRelocateData exampleKnobs 10 83 exampleMergeRequest)
                   [exampleFetching, exampleQueued]"
      by auto
    then show ?thesis using Inr rd0 e by (simp add: inherited_sel)
  qed
qed

subsection \<open>Candidates and the overlap check of \<^verbatim>\<open>launchQueuedWork\<close>\<close>

lemma takeFromQueue_subset:
  "set (takeFromQueue j t xs c) \<subseteq> set c \<union> set (take (nat (t - j)) xs)"
proof (induction xs arbitrary: j c)
  case Nil
  then show ?case by simp
next
  case (Cons x xs)
  show ?case
  proof (cases "j < t")
    case False
    then show ?thesis by simp
  next
    case True
    define n where "n = nat (t - (j + 1))"
    have n: "nat (t - j) = Suc n" "nat (t - (j + 1)) = n"
      using True unfolding n_def by linarith+
    have "set (takeFromQueue (j + 1) t xs (set_insert x c)) \<subseteq> set (set_insert x c) \<union> set (take n xs)"
      using Cons.IH[of "j + 1" "set_insert x c"] n by simp
    then show ?thesis using True n set_set_insert[of x c] by auto
  qed
qed

lemma combineFromServers_subset:
  "combineFromServers t ids (c, q) = (c', q') \<Longrightarrow>
   set c' \<subseteq> set c \<union> (\<Union>i\<in>set ids. set (take (nat t) (queueOf q i))) \<and> queueOf q' = queueOf q"
proof (induction ids arbitrary: c q)
  case Nil
  then show ?case by simp
next
  case (Cons i ids)
  obtain s q1 where at: "queue_at q i = (s, q1)" by (cases "queue_at q i")
  note qp = queue_at_props[OF at]
  from Cons.prems at have "combineFromServers t ids (takeFromQueue 0 t s c, q1) = (c', q')" by simp
  from Cons.IH[OF this] have
    "set c' \<subseteq> set (takeFromQueue 0 t s c) \<union> (\<Union>i\<in>set ids. set (take (nat t) (queueOf q1 i)))"
    "queueOf q' = queueOf q1" by auto
  moreover have "set (takeFromQueue 0 t s c) \<subseteq> set c \<union> set (take (nat t) s)"
    using takeFromQueue_subset[of 0 t s c] by simp
  ultimately show ?case using qp by auto
qed


text \<open>
  Claim C9. The candidates that \<^verbatim>\<open>launchQueuedWork\<close> collects from a set of source
  servers all come from the first \<open>teamSize\<close> entries of the queue of some listed
  server; a relocation that is not among the first \<open>teamSize\<close> entries of the queue of
  any listed server is not a candidate of the pass.
\<close>

theorem launchQueuedWork_servers_candidates:
  "set (fst (launchQueuedWork_servers_combined st servers))
     \<subseteq> (\<Union>i\<in>set servers. set (take (nat (teamSize st)) (queueOf (queue st) i))) \<and>
   ((\<forall>i\<in>set servers. rd \<notin> set (take (nat (teamSize st)) (queueOf (queue st) i)))
      \<longrightarrow> rd \<notin> set (fst (launchQueuedWork_servers_combined st servers)))"
proof -
  obtain c q where cq: "combineFromServers (teamSize st) servers ([], queue st) = (c, q)"
    by (cases "combineFromServers (teamSize st) servers ([], queue st)")
  from combineFromServers_subset[OF cq]
  have "set c \<subseteq> (\<Union>i\<in>set servers. set (take (nat (teamSize st)) (queueOf (queue st) i)))" by auto
  moreover have "fst (launchQueuedWork_servers_combined st servers) = c"
    using cq by (simp add: launchQueuedWork_servers_combined_def)
  ultimately show ?thesis by auto
qed

theorem launchQueuedWork_servers_candidates_witness:
  "fst (launchQueuedWork_servers_combined busyServerQueue [1]) = [queuedFirst, queuedSecond] \<and>
   queuedThird \<notin> set (fst (launchQueuedWork_servers_combined busyServerQueue [1]))"
proof -
  have q: "queueOf (queue busyServerQueue) 1 = [queuedFirst, queuedSecond, queuedThird]"
    "teamSize busyServerQueue = 2"
    by (simp_all add: busyServerQueue_def queueOf_def newDDQueueData_def)
  have d: "queuedThird \<noteq> queuedFirst" "queuedThird \<noteq> queuedSecond"
    by (simp_all add: queuedFirst_def queuedSecond_def queuedThird_def exampleRelocation_def)
  have "fst (launchQueuedWork_servers_combined busyServerQueue [1]) = [queuedFirst, queuedSecond]"
    by (simp add: launchQueuedWork_servers_combined_def busyServerQueue_def newDDQueueData_def
          queue_at_def rd_greater_def queuedFirst_def queuedSecond_def exampleRelocation_def)
  moreover have "queuedThird \<notin> set (fst (launchQueuedWork_servers_combined busyServerQueue [1]))"
    using launchQueuedWork_servers_candidates [of busyServerQueue "[1]" queuedThird] q d
    by (simp add: numeral_2_eq_2)
  ultimately show ?thesis by simp
qed

lemma overlappingInFlight_iff:
  "overlappingInFlight knobs st rd es \<longleftrightarrow>
     healthPriority rd < PRIORITY_TEAM_UNHEALTHY knobs \<and>
     list_ex (\<lambda>e. list_ex (rd_equiv (snd e)) (fetchKeysComplete st) \<and>
                   liveActorAt (inFlightActors st) (range_begin (fst e)) \<and>
                   \<not> keyRange_contains (keys rd) (fst e) \<and>
                   priority rd \<le> priority (snd e)) es"
  by (induction es) (auto simp: set_count_iff)

lemma overlapping_blocked:
  "overlappingInFlight knobs st rd (intersectingRanges (inFlight st) (keys rd))
     = blockedByInFlight knobs st rd"
  unfolding overlappingInFlight_iff blockedByInFlight_def intersectingRanges_def list_ex_filter
  by simp

text \<open>
  Claim C2, as stated, covers every candidate. For a restored data move that meets the
  skipping condition the loop does not skip: \<^verbatim>\<open>ASSERT(!rd.isRestore())\<close> fails and
  \<^verbatim>\<open>launchQueuedWork\<close> throws.
\<close>

theorem launchQueuedWork_skip_counterexample:
  "blockedByInFlight exampleKnobs blockedQueue exampleRestore \<and>
   launchQueuedWork_iteration exampleKnobs exampleRestore blockedQueue = Inl internal_error"
proof -
  have b: "blockedByInFlight exampleKnobs blockedQueue exampleRestore"
    by (simp add: blockedByInFlight_def blockedQueue_def exampleRestore_def exampleInFlight_def
          exampleRelocation_def exampleKnobs_def newDDQueueData_def keyRange_intersects_def
          keyRange_contains_def liveActorAt_def rangeContaining_def isLive_def rd_equiv_def
          rd_greater_def)
  moreover have "isRestore exampleRestore"
    by (simp add: isRestore_def exampleRestore_def)
  ultimately show ?thesis
    by (simp add: launchQueuedWork_iteration_def overlapping_blocked)
qed

text \<open>
  Claim C2, amended. A candidate \<open>rd\<close> that is not a restore is skipped, with the state
  of the queue unchanged, whenever some in-flight entry that overlaps \<open>rd.keys\<close> is in
  \<open>fetchKeysComplete\<close>, has a live actor at the begin of its range, is not contained in
  \<open>rd.keys\<close> and has a priority of at least \<open>rd.priority\<close>, and
  \<open>rd.healthPriority < PRIORITY_TEAM_UNHEALTHY\<close>; a restore in this situation fails the
  assertion of the loop. Otherwise the loop proceeds to the admission check for \<open>rd\<close>.
\<close>

theorem launchQueuedWork_skips_blocked:
  "(blockedByInFlight knobs st rd \<and> \<not> isRestore rd \<longrightarrow>
      launchQueuedWork_iteration knobs rd st = Inr st) \<and>
   (blockedByInFlight knobs st rd \<and> isRestore rd \<longrightarrow>
      launchQueuedWork_iteration knobs rd st = Inl internal_error) \<and>
   (\<not> blockedByInFlight knobs st rd \<longrightarrow>
      launchQueuedWork_iteration knobs rd st = admissionCheck knobs rd st)"
  by (simp add: launchQueuedWork_iteration_def overlapping_blocked)


theorem launchQueuedWork_skips_blocked_witness:
  "launchQueuedWork_iteration exampleKnobs exampleRelocation blockedQueue = Inr blockedQueue \<and>
   launchQueuedWork_iteration exampleKnobs exampleRelocation (newDDQueueData 3 3)
     = Inl internal_error"
proof -
  have b: "blockedByInFlight exampleKnobs blockedQueue exampleRelocation"
    by (simp add: blockedByInFlight_def blockedQueue_def exampleInFlight_def
          exampleRelocation_def exampleKnobs_def newDDQueueData_def keyRange_intersects_def
          keyRange_contains_def liveActorAt_def rangeContaining_def isLive_def rd_equiv_def
          rd_greater_def)
  have nb: "\<not> blockedByInFlight exampleKnobs (newDDQueueData 3 3) exampleRelocation"
    by (simp add: blockedByInFlight_def newDDQueueData_def)
  have r: "\<not> isRestore exampleRelocation" by (simp add: isRestore_def exampleRelocation_def)
  have cl: "canLaunchSrc exampleKnobs exampleRelocation 3 3 Map.empty []
              = Inr (True, [1 \<mapsto> newBusyness])"
    by (simp add: canLaunchSrc_def getSrcWorkFactor_def cdiv_def
        exampleKnobs_def WORK_FULL_UTILIZATION_def signed_divide_int_def neededServers_of_def
        busymap_at_def newBusyness_def canLaunch_def exampleRelocation_def eval_nat_numeral)
  have c: "cancellableOf (containedRanges (inFlight (newDDQueueData 3 3)) (keys exampleRelocation)) = []"
    by (simp add: newDDQueueData_def containedRanges_def keyRange_contains_def allKeys_def
        exampleRelocation_def)
  have f: "teamSize (newDDQueueData 3 3) = 3" "singleRegionTeamSize (newDDQueueData 3 3) = 3"
    "busymap (newDDQueueData 3 3) = Map.empty"
    by (simp_all add: newDDQueueData_def)
  have e: "eraseLaunched exampleRelocation (src exampleRelocation) Map.empty = Inl internal_error"
    by (simp add: exampleRelocation_def queue_at_def set_count_def)
  have l: "launchAdmitted exampleKnobs exampleRelocation
             ((newDDQueueData 3 3) \<lparr> busymap := [1 \<mapsto> newBusyness] \<rparr>) = Inl internal_error"
    unfolding launchAdmitted_def using r e
    by (simp add: finishRelocation_def countsAsUnhealthy_def trace_def newDDQueueData_def
        exampleKnobs_def exampleRelocation_def Let_def)
  have a: "admissionCheck exampleKnobs exampleRelocation (newDDQueueData 3 3) = Inl internal_error"
    unfolding admissionCheck_def c f Let_def using r cl l by simp
  show ?thesis
    using launchQueuedWork_skips_blocked [of exampleKnobs blockedQueue exampleRelocation]
      launchQueuedWork_skips_blocked [of exampleKnobs "newDDQueueData 3 3" exampleRelocation]
      b nb r a
    by simp
qed

subsection \<open>Disk rebalancing\<close>

lemma sampleShards_exact:
  assumes "sampleShards n env shards r cur = (ms, b, k)"
    and "0 \<le> snd cur" "snd cur \<le> max (env_averageShardBytes env) 0"
  shows "r \<le> k \<and> k \<le> r + n \<and> snd cur \<le> b \<and>
         (\<forall>i. r \<le> i \<and> Suc i < k \<longrightarrow>
              env_shardBytes env i (randomChoice env i shards) \<le> max (env_averageShardBytes env) 0) \<and>
         (k < r + n \<longrightarrow> r < k \<and>
              max (env_averageShardBytes env) 0
                < env_shardBytes env (k - 1) (randomChoice env (k - 1) shards)) \<and>
         (\<forall>i. r \<le> i \<and> i < k \<longrightarrow> env_shardBytes env i (randomChoice env i shards) \<le> b) \<and>
         (if b = snd cur then ms = fst cur
          else \<exists>i. r \<le> i \<and> i < k \<and> ms = randomChoice env i shards \<and>
                   b = env_shardBytes env i ms \<and>
                   (\<forall>j. r \<le> j \<and> j < i \<longrightarrow> env_shardBytes env j (randomChoice env j shards) < b))"
  using assms
proof (induction n arbitrary: r cur)
  case 0
  then have "ms = fst cur" "b = snd cur" "k = r" by auto
  then show ?case by simp
next
  case (Suc n)
  let ?B = "\<lambda>i. env_shardBytes env i (randomChoice env i shards)"
  let ?M = "max (env_averageShardBytes env) 0"
  let ?t = "randomChoice env r shards"
  let ?tb = "env_shardBytes env r ?t"
  show ?case
  proof (cases "?tb > snd cur")
    case False
    with Suc.prems have rec: "sampleShards n env shards (r + 1) cur = (ms, b, k)"
      by (simp add: Let_def)
    from Suc.IH[OF rec Suc.prems(2,3)] have ih:
      "r + 1 \<le> k" "k \<le> r + 1 + n" "snd cur \<le> b"
      "\<forall>i. r + 1 \<le> i \<and> Suc i < k \<longrightarrow> ?B i \<le> ?M"
      "k < r + 1 + n \<longrightarrow> r + 1 < k \<and> ?M < ?B (k - 1)"
      "\<forall>i. r + 1 \<le> i \<and> i < k \<longrightarrow> ?B i \<le> b"
      "if b = snd cur then ms = fst cur
       else \<exists>i. r + 1 \<le> i \<and> i < k \<and> ms = randomChoice env i shards \<and> b = env_shardBytes env i ms \<and>
                (\<forall>j. r + 1 \<le> j \<and> j < i \<longrightarrow> ?B j < b)"
      by auto
    have tbM: "?tb \<le> ?M" using False Suc.prems(3) by linarith
    have p2: "\<forall>i. r \<le> i \<and> Suc i < k \<longrightarrow> ?B i \<le> ?M"
    proof (intro allI impI)
      fix i assume i: "r \<le> i \<and> Suc i < k"
      show "?B i \<le> ?M"
      proof (cases "i = r")
        case True then show ?thesis using tbM by simp
      next
        case False then show ?thesis using i ih(4) by simp
      qed
    qed
    have p6: "\<forall>i. r \<le> i \<and> i < k \<longrightarrow> ?B i \<le> b"
    proof (intro allI impI)
      fix i assume i: "r \<le> i \<and> i < k"
      show "?B i \<le> b"
      proof (cases "i = r")
        case True then show ?thesis using False ih(3) by simp
      next
        case False then show ?thesis using i ih(6) by simp
      qed
    qed
    have p7: "if b = snd cur then ms = fst cur
          else \<exists>i. r \<le> i \<and> i < k \<and> ms = randomChoice env i shards \<and> b = env_shardBytes env i ms \<and>
                   (\<forall>j. r \<le> j \<and> j < i \<longrightarrow> ?B j < b)"
    proof (cases "b = snd cur")
      case True then show ?thesis using ih(7) by simp
    next
      case ne: False
      with ih(7) obtain i where i: "r + 1 \<le> i" "i < k" "ms = randomChoice env i shards"
        "b = env_shardBytes env i ms" "\<forall>j. r + 1 \<le> j \<and> j < i \<longrightarrow> ?B j < b" by auto
      have "\<forall>j. r \<le> j \<and> j < i \<longrightarrow> ?B j < b"
      proof (intro allI impI)
        fix j assume j: "r \<le> j \<and> j < i"
        show "?B j < b"
        proof (cases "j = r")
          case True then show ?thesis using False ih(3) ne by simp
        next
          case False then show ?thesis using j i(5) by simp
        qed
      qed
      then have "\<exists>i. r \<le> i \<and> i < k \<and> ms = randomChoice env i shards \<and> b = env_shardBytes env i ms \<and>
                   (\<forall>j. r \<le> j \<and> j < i \<longrightarrow> ?B j < b)"
        using i by (intro exI[of _ i]) auto
      then show ?thesis using ne by (simp only: if_False)
    qed
    show ?thesis using ih(1,2,3,5) p2 p6 p7 by simp
  next
    case True
    show ?thesis
    proof (cases "?tb > env_averageShardBytes env")
      case big: True
      have "sampleShards (Suc n) env shards r cur = (?t, ?tb, r + 1)"
        using True big by (simp add: Let_def)
      with Suc.prems(1) have "(?t, ?tb, r + 1) = (ms, b, k)" by (simp only:)
      then have res: "ms = ?t" "b = ?tb" "k = r + 1" by auto
      have p6: "\<forall>i. r \<le> i \<and> i < k \<longrightarrow> ?B i \<le> b"
        using res by (auto simp: less_Suc_eq_le le_antisym)
      have p7: "\<exists>i. r \<le> i \<and> i < k \<and> ms = randomChoice env i shards \<and> b = env_shardBytes env i ms \<and>
                   (\<forall>j. r \<le> j \<and> j < i \<longrightarrow> ?B j < b)"
        using res by (intro exI[of _ r]) simp
      have ne: "b \<noteq> snd cur" using res True by simp
      have p5: "?M < ?B (k - 1)" using res True big Suc.prems(2) by simp
      show ?thesis using res True p5 p6 p7 ne by simp
    next
      case small: False
      with True Suc.prems have rec: "sampleShards n env shards (r + 1) (?t, ?tb) = (ms, b, k)"
        by (simp add: Let_def)
      have c2: "0 \<le> snd (?t, ?tb)" using True Suc.prems(2) by simp
      have c3: "snd (?t, ?tb) \<le> ?M" using small by simp
      from Suc.IH[OF rec c2 c3] have ih:
        "r + 1 \<le> k" "k \<le> r + 1 + n" "?tb \<le> b"
        "\<forall>i. r + 1 \<le> i \<and> Suc i < k \<longrightarrow> ?B i \<le> ?M"
        "k < r + 1 + n \<longrightarrow> r + 1 < k \<and> ?M < ?B (k - 1)"
        "\<forall>i. r + 1 \<le> i \<and> i < k \<longrightarrow> ?B i \<le> b"
        "if b = ?tb then ms = ?t
         else \<exists>i. r + 1 \<le> i \<and> i < k \<and> ms = randomChoice env i shards \<and> b = env_shardBytes env i ms \<and>
                (\<forall>j. r + 1 \<le> j \<and> j < i \<longrightarrow> ?B j < b)"
        by auto
      have p2: "\<forall>i. r \<le> i \<and> Suc i < k \<longrightarrow> ?B i \<le> ?M"
      proof (intro allI impI)
        fix i assume i: "r \<le> i \<and> Suc i < k"
        show "?B i \<le> ?M"
        proof (cases "i = r")
          case True then show ?thesis using small by simp
        next
          case False then show ?thesis using i ih(4) by simp
        qed
      qed
      have p6: "\<forall>i. r \<le> i \<and> i < k \<longrightarrow> ?B i \<le> b"
      proof (intro allI impI)
        fix i assume i: "r \<le> i \<and> i < k"
        show "?B i \<le> b"
        proof (cases "i = r")
          case True then show ?thesis using ih(3) by simp
        next
          case False then show ?thesis using i ih(6) by simp
        qed
      qed
      have ne: "b \<noteq> snd cur" using True ih(3) by linarith
      have p7: "\<exists>i. r \<le> i \<and> i < k \<and> ms = randomChoice env i shards \<and> b = env_shardBytes env i ms \<and>
                   (\<forall>j. r \<le> j \<and> j < i \<longrightarrow> ?B j < b)"
      proof (cases "b = ?tb")
        case True
        with ih(7) have "ms = ?t" by simp
        then show ?thesis using True ih(1) by (intro exI[of _ r]) auto
      next
        case nb: False
        with ih(7) obtain i where i: "r + 1 \<le> i" "i < k" "ms = randomChoice env i shards"
          "b = env_shardBytes env i ms" "\<forall>j. r + 1 \<le> j \<and> j < i \<longrightarrow> ?B j < b" by auto
        have "\<forall>j. r \<le> j \<and> j < i \<longrightarrow> ?B j < b"
        proof (intro allI impI)
          fix j assume j: "r \<le> j \<and> j < i"
          show "?B j < b"
          proof (cases "j = r")
            case True then show ?thesis using ih(3) nb by simp
          next
            case False then show ?thesis using j i(5) by simp
          qed
        qed
        then show ?thesis using i by (intro exI[of _ i]) auto
      qed
      have "snd cur \<le> b" using True ih(3) by linarith
      then show ?thesis using ih(1,2,5) p2 p6 p7 ne by simp
    qed
  qed
qed


lemma shardPresent_iff: "shardPresent x xs \<longleftrightarrow> x \<in> set xs"
  by (induction xs) auto

text \<open>
  Claim C7, as stated: whenever the two teams are not too similar and the chosen shard
  is not empty, a \<^verbatim>\<open>RelocateShard\<close> is sent. The actor first verifies that the chosen
  shard is still a shard of the source team; when it is not, nothing is sent and the
  result is false.
\<close>

theorem rebalanceTeams_counterexample:
  "sampleShards (nat (REBALANCE_MAX_RETRIES exampleKnobs)) shardGone (env_shardsFor shardGone 0) 0
      (\<lparr> range_begin = [], range_end = [] \<rparr>, 0)
     = (\<lparr> range_begin = [1], range_end = [5] \<rparr>, 1000000, 1) \<and>
   \<not> (env_sourceBytes shardGone - env_destBytes shardGone
        \<le> 3 * max (MIN_SHARD_BYTES exampleKnobs) 1000000) \<and>
   rebalanceTeams exampleKnobs shardGone REBALANCE_OVERUTILIZED_TEAM
     = \<lparr> moved = False, askedAverageShardBytes = True, sent = [],
         skipReason = Some ''ShardNotPresent'' \<rparr>"
proof -
  have n: "nat (REBALANCE_MAX_RETRIES exampleKnobs) = Suc 99" by (simp add: exampleKnobs_def)
  have sg: "sampleShards (nat (REBALANCE_MAX_RETRIES exampleKnobs)) shardGone
              (env_shardsFor shardGone 0) 0 (\<lparr> range_begin = [], range_end = [] \<rparr>, 0)
            = (\<lparr> range_begin = [1], range_end = [5] \<rparr>, 1000000, 1)"
    unfolding n by (simp only: sampleShards.simps) (simp add: shardGone_def randomChoice_def Let_def)
  have "rebalanceTeams exampleKnobs shardGone REBALANCE_OVERUTILIZED_TEAM
     = \<lparr> moved = False, askedAverageShardBytes = True, sent = [],
         skipReason = Some ''ShardNotPresent'' \<rparr>"
    unfolding rebalanceTeams_def using sg by (simp add: shardGone_def exampleKnobs_def Let_def)
  then show ?thesis using sg by (simp add: shardGone_def exampleKnobs_def)
qed

text \<open>
  Claim C7, amended. Under simulation speed-up \<^verbatim>\<open>rebalanceTeams\<close> returns false at once.
  Otherwise it requests the average shard size; with no shard on the source team it
  returns false. Otherwise it samples random shards of the source team, at most
  \<^verbatim>\<open>REBALANCE_MAX_RETRIES\<close> of them, and stops at the first sample that is larger than
  the average (and than zero): no earlier sample is that large, and it stops before
  the limit only at such a sample. The shard it keeps is the first of the largest
  samples, or none when no sample is larger than zero. Then, if
  \<open>sourceBytes - destBytes \<le> 3 * max(MIN_SHARD_BYTES, shardBytes)\<close> or \<open>shardBytes = 0\<close>,
  it emits nothing and returns false; otherwise, if the chosen shard is still a shard
  of the source team, it sends a \<^verbatim>\<open>RelocateShard\<close> for it with reason
  \<^verbatim>\<open>REBALANCE_DISK\<close> and returns true, and if it is not, it emits nothing and returns
  false.
\<close>

theorem rebalanceTeams_decision:
  "(env_isSimulated env \<and> env_speedUpSimulation env \<longrightarrow>
      rebalanceTeams knobs env moveReason
        = \<lparr> moved = False, askedAverageShardBytes = False, sent = [], skipReason = None \<rparr>) \<and>
   (\<not> (env_isSimulated env \<and> env_speedUpSimulation env) \<and> env_shardsFor env 0 = [] \<longrightarrow>
      rebalanceTeams knobs env moveReason
        = \<lparr> moved = False, askedAverageShardBytes = True, sent = [],
            skipReason = Some ''NoShardOnSource'' \<rparr>) \<and>
   (\<not> (env_isSimulated env \<and> env_speedUpSimulation env) \<and> env_shardsFor env 0 \<noteq> [] \<longrightarrow>
      (\<exists>moveShard bytes sampled.
          sampleShards (nat (REBALANCE_MAX_RETRIES knobs)) env (env_shardsFor env 0) 0
              (\<lparr> range_begin = [], range_end = [] \<rparr>, 0) = (moveShard, bytes, sampled) \<and>
          sampled \<le> nat (REBALANCE_MAX_RETRIES knobs) \<and>
          (\<forall>i. Suc i < sampled \<longrightarrow> sampledBytes env i \<le> max (env_averageShardBytes env) 0) \<and>
          (sampled < nat (REBALANCE_MAX_RETRIES knobs) \<longrightarrow>
             0 < sampled \<and> max (env_averageShardBytes env) 0 < sampledBytes env (sampled - 1)) \<and>
          0 \<le> bytes \<and>
          (\<forall>i<sampled. sampledBytes env i \<le> bytes) \<and>
          (if bytes = 0 then moveShard = \<lparr> range_begin = [], range_end = [] \<rparr>
           else \<exists>i<sampled. moveShard = randomChoice env i (env_shardsFor env 0) \<and>
                            bytes = sampledBytes env i \<and>
                            (\<forall>j<i. sampledBytes env j < bytes)) \<and>
          askedAverageShardBytes (rebalanceTeams knobs env moveReason) \<and>
          (if env_sourceBytes env - env_destBytes env \<le> 3 * max (MIN_SHARD_BYTES knobs) bytes \<or>
              bytes = 0
           then \<not> moved (rebalanceTeams knobs env moveReason) \<and>
                sent (rebalanceTeams knobs env moveReason) = []
           else if moveShard \<in> set (env_shardsFor env 1)
           then moved (rebalanceTeams knobs env moveReason) \<and>
                sent (rebalanceTeams knobs env moveReason)
                  = [newRelocateShard knobs moveShard moveReason REBALANCE_DISK]
           else \<not> moved (rebalanceTeams knobs env moveReason) \<and>
                sent (rebalanceTeams knobs env moveReason) = [])))"
proof (intro conjI impI)
  assume "env_isSimulated env \<and> env_speedUpSimulation env"
  then show "rebalanceTeams knobs env moveReason
        = \<lparr> moved = False, askedAverageShardBytes = False, sent = [], skipReason = None \<rparr>"
    by (simp add: rebalanceTeams_def)
next
  assume "\<not> (env_isSimulated env \<and> env_speedUpSimulation env) \<and> env_shardsFor env 0 = []"
  then show "rebalanceTeams knobs env moveReason
        = \<lparr> moved = False, askedAverageShardBytes = True, sent = [],
            skipReason = Some ''NoShardOnSource'' \<rparr>"
    by (simp add: rebalanceTeams_def)
next
  assume a: "\<not> (env_isSimulated env \<and> env_speedUpSimulation env) \<and> env_shardsFor env 0 \<noteq> []"
  obtain ms b k where s: "sampleShards (nat (REBALANCE_MAX_RETRIES knobs)) env (env_shardsFor env 0) 0
              (\<lparr> range_begin = [], range_end = [] \<rparr>, 0) = (ms, b, k)"
    by (cases "sampleShards (nat (REBALANCE_MAX_RETRIES knobs)) env (env_shardsFor env 0) 0
              (\<lparr> range_begin = [], range_end = [] \<rparr>, 0)") auto
  have c: "0 \<le> snd (\<lparr> range_begin = [], range_end = [] \<rparr>, 0::int)"
    "snd (\<lparr> range_begin = [], range_end = [] \<rparr>, 0::int) \<le> max (env_averageShardBytes env) 0"
    by simp_all
  note p = sampleShards_exact[OF s c]
  have p1: "k \<le> nat (REBALANCE_MAX_RETRIES knobs)" using p by simp
  have p2: "\<forall>i. Suc i < k \<longrightarrow> sampledBytes env i \<le> max (env_averageShardBytes env) 0"
    using p by (simp add: sampledBytes_def)
  have p3: "k < nat (REBALANCE_MAX_RETRIES knobs) \<longrightarrow>
             0 < k \<and> max (env_averageShardBytes env) 0 < sampledBytes env (k - 1)"
    using p by (simp add: sampledBytes_def)
  have p4: "0 \<le> b" using p by simp
  have p5: "\<forall>i<k. sampledBytes env i \<le> b" using p by (simp add: sampledBytes_def)
  have p6: "if b = 0 then ms = \<lparr> range_begin = [], range_end = [] \<rparr>
           else \<exists>i<k. ms = randomChoice env i (env_shardsFor env 0) \<and>
                       b = sampledBytes env i \<and> (\<forall>j<i. sampledBytes env j < b)"
  proof (cases "b = 0")
    case True
    then show ?thesis using p by simp
  next
    case False
    with p obtain i where "i < k" "ms = randomChoice env i (env_shardsFor env 0)"
      "b = env_shardBytes env i ms"
      "\<forall>j. j < i \<longrightarrow> env_shardBytes env j (randomChoice env j (env_shardsFor env 0)) < b"
      by auto
    then have "\<exists>i<k. ms = randomChoice env i (env_shardsFor env 0) \<and>
                       b = sampledBytes env i \<and> (\<forall>j<i. sampledBytes env j < b)"
      by (intro exI[of _ i]) (simp add: sampledBytes_def)
    then show ?thesis using False by (simp only: if_False)
  qed
  have r: "rebalanceTeams knobs env moveReason =
      (let sourceAndDestTooSimilar =
             (env_sourceBytes env - env_destBytes env \<le> 3 * max (MIN_SHARD_BYTES knobs) b)
       in if sourceAndDestTooSimilar \<or> b = 0
          then \<lparr> moved = False, askedAverageShardBytes = True, sent = [],
                 skipReason = Some (if sourceAndDestTooSimilar then ''TeamTooSimilar''
                                    else ''ShardZeroSize'') \<rparr>
          else if ms \<in> set (env_shardsFor env 1)
          then \<lparr> moved = True, askedAverageShardBytes = True,
                 sent = [newRelocateShard knobs ms moveReason REBALANCE_DISK],
                 skipReason = None \<rparr>
          else \<lparr> moved = False, askedAverageShardBytes = True, sent = [],
                 skipReason = Some ''ShardNotPresent'' \<rparr>)"
    using a s by (simp add: rebalanceTeams_def shardPresent_iff Let_def)
  have p7: "askedAverageShardBytes (rebalanceTeams knobs env moveReason)"
    unfolding r by (simp add: Let_def)
  have p8: "if env_sourceBytes env - env_destBytes env \<le> 3 * max (MIN_SHARD_BYTES knobs) b \<or> b = 0
           then \<not> moved (rebalanceTeams knobs env moveReason) \<and>
                sent (rebalanceTeams knobs env moveReason) = []
           else if ms \<in> set (env_shardsFor env 1)
           then moved (rebalanceTeams knobs env moveReason) \<and>
                sent (rebalanceTeams knobs env moveReason)
                  = [newRelocateShard knobs ms moveReason REBALANCE_DISK]
           else \<not> moved (rebalanceTeams knobs env moveReason) \<and>
                sent (rebalanceTeams knobs env moveReason) = []"
    unfolding r by (simp add: Let_def)
  show "\<exists>moveShard bytes sampled.
          sampleShards (nat (REBALANCE_MAX_RETRIES knobs)) env (env_shardsFor env 0) 0
              (\<lparr> range_begin = [], range_end = [] \<rparr>, 0) = (moveShard, bytes, sampled) \<and>
          sampled \<le> nat (REBALANCE_MAX_RETRIES knobs) \<and>
          (\<forall>i. Suc i < sampled \<longrightarrow> sampledBytes env i \<le> max (env_averageShardBytes env) 0) \<and>
          (sampled < nat (REBALANCE_MAX_RETRIES knobs) \<longrightarrow>
             0 < sampled \<and> max (env_averageShardBytes env) 0 < sampledBytes env (sampled - 1)) \<and>
          0 \<le> bytes \<and>
          (\<forall>i<sampled. sampledBytes env i \<le> bytes) \<and>
          (if bytes = 0 then moveShard = \<lparr> range_begin = [], range_end = [] \<rparr>
           else \<exists>i<sampled. moveShard = randomChoice env i (env_shardsFor env 0) \<and>
                            bytes = sampledBytes env i \<and>
                            (\<forall>j<i. sampledBytes env j < bytes)) \<and>
          askedAverageShardBytes (rebalanceTeams knobs env moveReason) \<and>
          (if env_sourceBytes env - env_destBytes env \<le> 3 * max (MIN_SHARD_BYTES knobs) bytes \<or>
              bytes = 0
           then \<not> moved (rebalanceTeams knobs env moveReason) \<and>
                sent (rebalanceTeams knobs env moveReason) = []
           else if moveShard \<in> set (env_shardsFor env 1)
           then moved (rebalanceTeams knobs env moveReason) \<and>
                sent (rebalanceTeams knobs env moveReason)
                  = [newRelocateShard knobs moveShard moveReason REBALANCE_DISK]
           else \<not> moved (rebalanceTeams knobs env moveReason) \<and>
                sent (rebalanceTeams knobs env moveReason) = [])"
    using s p1 p2 p3 p4 p5 p6 p7 p8 by blast
qed

theorem rebalanceTeams_decision_witness:
  "sampleShards (nat (REBALANCE_MAX_RETRIES exampleKnobs)) largeShardFirst
      (env_shardsFor largeShardFirst 0) 0 (\<lparr> range_begin = [], range_end = [] \<rparr>, 0)
     = (\<lparr> range_begin = [1], range_end = [5] \<rparr>, 600000, 1) \<and>
   moved (rebalanceTeams exampleKnobs largeShardFirst REBALANCE_OVERUTILIZED_TEAM) \<and>
   sent (rebalanceTeams exampleKnobs largeShardFirst REBALANCE_OVERUTILIZED_TEAM)
     = [newRelocateShard exampleKnobs \<lparr> range_begin = [1], range_end = [5] \<rparr>
          REBALANCE_OVERUTILIZED_TEAM REBALANCE_DISK]"
proof -
  have n: "nat (REBALANCE_MAX_RETRIES exampleKnobs) = Suc 99" by (simp add: exampleKnobs_def)
  have sg: "sampleShards (nat (REBALANCE_MAX_RETRIES exampleKnobs)) largeShardFirst
              (env_shardsFor largeShardFirst 0) 0 (\<lparr> range_begin = [], range_end = [] \<rparr>, 0)
            = (\<lparr> range_begin = [1], range_end = [5] \<rparr>, 600000, 1)"
    unfolding n
    by (simp only: sampleShards.simps)
       (simp add: largeShardFirst_def randomChoice_def Let_def)
  have h: "\<not> (env_isSimulated largeShardFirst \<and> env_speedUpSimulation largeShardFirst) \<and>
           env_shardsFor largeShardFirst 0 \<noteq> []"
    by (simp add: largeShardFirst_def)
  show ?thesis
    using rebalanceTeams_decision [of largeShardFirst exampleKnobs REBALANCE_OVERUTILIZED_TEAM] h sg
    by (simp add: largeShardFirst_def exampleKnobs_def)
qed

subsection \<open>The ledgers under the destination fail switch\<close>

text \<open>
  Claim C4 at a concrete input. \<^verbatim>\<open>canLaunchDest\<close> treats a destination parallelism that
  is not positive as a fail switch and admits every move; \<^verbatim>\<open>launchDest\<close> has no such
  guard. With the knob at \<open>-1\<close> the destination work factor is \<open>-10000\<close>, and one
  \<^verbatim>\<open>launchDest\<close> on a fresh \<open>destBusymap\<close> leaves the ledger of the destination negative
  at the buckets 0 and 1 and ascending at bucket 1: \<^verbatim>\<open>validate\<close> reports both.
\<close>

theorem launchDest_fail_switch_breaks_ledger:
  "RELOCATION_PARALLELISM_PER_DEST_SERVER failSwitchKnobs = - 1 \<and>
   canLaunchDest failSwitchKnobs [([4], False)] (priority exampleRelocation) Map.empty
     = Inr (True, Map.empty) \<and>
   launchDest failSwitchKnobs exampleRelocation [([4], False)] Map.empty
     = Inr (exampleRelocation \<lparr> completeDests := [4] \<rparr>,
            [4 \<mapsto> \<lparr> ledger = [- 10000, - 10000, 0, 0, 0, 0, 0, 0, 0, 0] \<rparr>]) \<and>
   validate_negative \<lparr> ledger = [- 10000, - 10000, 0, 0, 0, 0, 0, 0, 0, 0] \<rparr> = [0, 1] \<and>
   validate_ascending \<lparr> ledger = [- 10000, - 10000, 0, 0, 0, 0, 0, 0, 0, 0] \<rparr> = [1]"
proof -
  have "launchDest failSwitchKnobs exampleRelocation [([4], False)] Map.empty
     = Inr (exampleRelocation \<lparr> completeDests := [4] \<rparr>,
            [4 \<mapsto> \<lparr> ledger = [- 10000, - 10000, 0, 0, 0, 0, 0, 0, 0, 0] \<rparr>])"
    by (simp add: launchDest_def getDestWorkFactor_def cdiv_def failSwitchKnobs_def exampleKnobs_def
        WORK_FULL_UTILIZATION_def busymap_at_def newBusyness_def addWork_def addWork_indices_def
        signed_divide_int_def upto.simps exampleRelocation_def eval_nat_numeral)
  moreover have "validate_negative \<lparr> ledger = [- 10000, - 10000, 0, 0, 0, 0, 0, 0, 0, 0] \<rparr> = [0, 1]"
    by (simp add: validate_negative_def upt_rec)
  moreover have "validate_ascending \<lparr> ledger = [- 10000, - 10000, 0, 0, 0, 0, 0, 0, 0, 0] \<rparr> = [1]"
    by (simp add: validate_ascending_def upt_rec)
  ultimately show ?thesis
    by (simp add: canLaunchDest_def failSwitchKnobs_def exampleKnobs_def)
qed

end
